theory Spec2Isabelle
  imports Main "HOL-Library.Word" "HOL-Library.Multiset"
begin

section \<open>Library values the tools work with\<close>

text \<open>
  The merge tools are Python scripts over the standard modules \<open>struct\<close>, \<open>wave\<close>,
  \<open>glob\<close> and \<open>os.path\<close>. What those library calls return is written out below
  as far as the scripts depend on it: exceptions are values of \<open>exn\<close>, a file opened for
  binary writing is its content with a position, and an opened WAVE reader is its
  parameters with the bytes of its data chunk.
\<close>

type_synonym byte = "8 word"

datatype exn = ValueError | IndexError | StructError | WaveError | OSError

text \<open>\<open>struct.pack('<H', n)\<close> and \<open>struct.pack('<L', n)\<close>: little-endian, and
  \<open>struct.error\<close> when the number does not fit the field.\<close>

definition le_bytes :: "nat \<Rightarrow> nat \<Rightarrow> byte list" where
  "le_bytes k n = map (\<lambda>i. of_nat (n div 256 ^ i)) [0..<k]"

definition pack_H :: "int \<Rightarrow> exn + byte list" where
  "pack_H n = (if 0 \<le> n \<and> n < 2 ^ 16 then Inr (le_bytes 2 (nat n)) else Inl StructError)"

definition pack_L :: "int \<Rightarrow> exn + byte list" where
  "pack_L n = (if 0 \<le> n \<and> n < 2 ^ 32 then Inr (le_bytes 4 (nat n)) else Inl StructError)"

text \<open>The reading direction, \<open>struct.unpack('<L', bs)[0]\<close>, used to state what a
  size field of the finished file holds.\<close>

definition unpack_le :: "byte list \<Rightarrow> nat" where
  "unpack_le bs = foldr (\<lambda>b acc. unat b + 256 * acc) bs 0"

definition ascii :: "string \<Rightarrow> byte list" where
  "ascii s = map (\<lambda>c. of_nat (of_char c)) s"

text \<open>A file object opened with \<open>open(path, 'wb')\<close>: the bytes of the file and the
  position of the next write. A write overwrites from the position on and extends the
  file where it runs past the end (a position beyond the end is padded with zero bytes).\<close>

record file_handle =
  content :: "byte list"
  pos :: nat

definition open_wb :: file_handle where
  "open_wb = \<lparr>content = [], pos = 0\<rparr>"

definition fwrite :: "byte list \<Rightarrow> file_handle \<Rightarrow> file_handle" where
  "fwrite bs h =
     \<lparr>content = take (pos h) (content h @ replicate (pos h - length (content h)) 0)
                 @ bs @ drop (pos h + length bs) (content h),
      pos = pos h + length bs\<rparr>"

definition fseek :: "nat \<Rightarrow> file_handle \<Rightarrow> file_handle" where
  "fseek p h = h\<lparr>pos := p\<rparr>"

definition ftell :: "file_handle \<Rightarrow> nat" where
  "ftell h = pos h"

text \<open>Writing a run of fields, each packed just before it is written: the first field
  that fails to pack raises, and the fields before it are already in the file.\<close>

fun write_fields :: "(exn + byte list) list \<Rightarrow> file_handle \<Rightarrow> exn option \<times> file_handle" where
  "write_fields [] h = (None, h)"
| "write_fields (Inl e # fs) h = (Some e, h)"
| "write_fields (Inr bs # fs) h = write_fields fs (fwrite bs h)"

text \<open>
  \<open>wave.open(path, 'rb')\<close> either raises or gives a reader. \<open>getparams()\<close> is the
  named tuple \<open>(nchannels, sampwidth, framerate, nframes, comptype, compname)\<close>; the
  module reads PCM only, so the last two are always \<open>'NONE'\<close> and
  \<open>'not compressed'\<close> and are left out. \<open>nframes\<close> is the frame count the header of the
  file announces and \<open>pcm\<close> the bytes its data chunk really holds.
\<close>

record wave_params =
  nchannels :: nat
  sampwidth :: nat
  framerate :: nat
  nframes :: nat

record wave_read = wave_params +
  pcm :: "byte list"

definition getparams :: "wave_read \<Rightarrow> wave_params" where
  "getparams w = wave_params.truncate w"

definition getnframes :: "wave_read \<Rightarrow> nat" where
  "getnframes w = nframes w"

text \<open>\<open>params[:4]\<close>: the first four entries of the tuple, so the frame count is one
  of them.\<close>

definition first4 :: "wave_params \<Rightarrow> nat \<times> nat \<times> nat \<times> nat" where
  "first4 p = (nchannels p, sampwidth p, framerate p, nframes p)"

text \<open>\<open>readframes(n)\<close> reads at most \<open>n\<close> frames of \<open>nchannels * sampwidth\<close> bytes
  from the data chunk.\<close>

definition readframes :: "wave_read \<Rightarrow> nat \<Rightarrow> byte list" where
  "readframes w n = take (n * (nchannels w * sampwidth w)) (pcm w)"

section \<open>Chunk file names and their order\<close>

text \<open>\<open>str.split(sep)\<close> for a separator of one character, and \<open>re.split\<close> for a
  class of single characters: the pieces between the separators, empty pieces kept.\<close>

fun split_on :: "('a \<Rightarrow> bool) \<Rightarrow> 'a list \<Rightarrow> 'a list list" where
  "split_on P [] = [[]]"
| "split_on P (x # xs) =
     (if P x then [] # split_on P xs
      else (let r = split_on P xs in (x # hd r) # tl r))"

text \<open>\<open>os.path.basename\<close> (POSIX): what follows the last slash.\<close>

definition basename :: "string \<Rightarrow> string" where
  "basename p = rev (takeWhile (\<lambda>c. c \<noteq> CHR ''/'') (rev p))"

text \<open>\<open>str.isspace\<close> on a code point, and \<open>str.strip()\<close>.\<close>

definition is_space :: "nat \<Rightarrow> bool" where
  "is_space c \<longleftrightarrow>
     (9 \<le> c \<and> c \<le> 13) \<or> (28 \<le> c \<and> c \<le> 32) \<or> c = 133 \<or> c = 160 \<or> c = 5760
     \<or> (8192 \<le> c \<and> c \<le> 8202) \<or> c = 8232 \<or> c = 8233 \<or> c = 8239 \<or> c = 8287 \<or> c = 12288"

definition strip_by :: "('a \<Rightarrow> bool) \<Rightarrow> 'a list \<Rightarrow> 'a list" where
  "strip_by sp s = rev (dropWhile sp (rev (dropWhile sp s)))"

text \<open>\<open>int(s)\<close> on a string of code points below 256: surrounding whitespace is
  dropped, one sign is allowed, and the digits may be grouped by single underscores.
  (Decimal digits of other scripts, which \<open>int\<close> also reads, are outside this model.)\<close>

definition is_digit :: "char \<Rightarrow> bool" where
  "is_digit c \<longleftrightarrow> 48 \<le> (of_char c :: nat) \<and> (of_char c :: nat) \<le> 57"

definition digit_val :: "char \<Rightarrow> nat" where
  "digit_val c = of_char c - 48"

fun grouped_digits :: "string \<Rightarrow> bool" where
  "grouped_digits [] = False"
| "grouped_digits [c] = is_digit c"
| "grouped_digits (c # d # cs) =
     (is_digit c \<and> (if d = CHR ''_'' then grouped_digits cs else grouped_digits (d # cs)))"

definition decimal :: "string \<Rightarrow> nat" where
  "decimal ds = foldl (\<lambda>a c. 10 * a + digit_val c) 0 ds"

definition py_int :: "string \<Rightarrow> exn + int" where
  "py_int s =
     (let t = strip_by (\<lambda>c. is_space (of_char c)) s;
          neg = (t \<noteq> [] \<and> hd t = CHR ''-'');
          u = (if t \<noteq> [] \<and> (hd t = CHR ''-'' \<or> hd t = CHR ''+'') then tl t else t)
      in if grouped_digits u
         then Inr ((if neg then - 1 else 1) * int (decimal (filter (\<lambda>c. c \<noteq> CHR ''_'') u)))
         else Inl ValueError)"

text \<open>The sort key of all three merge tools:
  \<open>lambda x: int(os.path.basename(x).split('_')[1].split('.')[0])\<close>.\<close>

definition sort_key_of :: "string \<Rightarrow> exn + int" where
  "sort_key_of x =
     (case split_on (\<lambda>c. c = CHR ''_'') (basename x) of
        _ # field # _ \<Rightarrow> py_int (hd (split_on (\<lambda>c. c = CHR ''.'') field))
      | _ \<Rightarrow> Inl IndexError)"

text \<open>\<open>wav_files.sort(key=...)\<close>: the keys of all entries are computed first, in list
  order, so the first entry whose key raises decides the exception; the sort itself is
  stable.\<close>

fun first_error :: "(exn + 'a) list \<Rightarrow> exn option" where
  "first_error [] = None"
| "first_error (Inl e # ks) = Some e"
| "first_error (Inr k # ks) = first_error ks"

definition sort_wav_files :: "string list \<Rightarrow> exn + string list" where
  "sort_wav_files wav_files =
     (case first_error (map sort_key_of wav_files) of
        Some e \<Rightarrow> Inl e
      | None \<Rightarrow> Inr (sort_key (\<lambda>x. case sort_key_of x of Inr k \<Rightarrow> k | Inl _ \<Rightarrow> 0) wav_files))"

section \<open>The merge tool that writes the container itself\<close>

text \<open>
  \<open>merge_audio_fixed\<close> reports a chunk it leaves out by printing a line; the two
  kinds of line are the constructors of \<open>skip\<close>, each with the base name printed
  (and the exception, where the line shows it). Progress lines are not modelled.
\<close>

datatype skip = Mismatch string | Corrupt string exn

record merge_state =
  out :: file_handle
  total_frames :: nat
  skipped :: "skip list"

text \<open>The body of the inner loop: one chunk file, inside its own \<open>try\<close>.\<close>

definition merge_file ::
  "(string \<Rightarrow> exn + wave_read) \<Rightarrow> wave_params \<Rightarrow> merge_state \<Rightarrow> string \<Rightarrow> merge_state" where
  "merge_file wopen params st wav_file =
     (case wopen wav_file of
        Inl e \<Rightarrow> st\<lparr>skipped := skipped st @ [Corrupt (basename wav_file) e]\<rparr>
      | Inr input_wav \<Rightarrow>
          if first4 (getparams input_wav) \<noteq> first4 params
          then st\<lparr>skipped := skipped st @ [Mismatch (basename wav_file)]\<rparr>
          else let frames = readframes input_wav (getnframes input_wav)
               in st\<lparr>out := fwrite frames (out st),
                     total_frames := total_frames st + getnframes input_wav\<rparr>)"

text \<open>The batch loop of \<open>merge_audio_fixed\<close> and \<open>merge_audio_fast\<close>, with the batch
  size (the constants 100 and 50 there) as a parameter: \<open>wav_files[start_idx:end_idx]\<close>
  for each \<open>batch_num\<close> in \<open>range(total_batches)\<close>, and the inner loop over each.\<close>

definition batch_files :: "nat \<Rightarrow> 'a list \<Rightarrow> nat \<Rightarrow> 'a list" where
  "batch_files batch_size wav_files batch_num =
     (let start_idx = batch_num * batch_size;
          end_idx = min (start_idx + batch_size) (length wav_files)
      in take (end_idx - start_idx) (drop start_idx wav_files))"

definition for_batches :: "nat \<Rightarrow> ('s \<Rightarrow> 'a \<Rightarrow> 's) \<Rightarrow> 'a list \<Rightarrow> 's \<Rightarrow> 's" where
  "for_batches batch_size body wav_files st =
     (let total_batches = (length wav_files + batch_size - 1) div batch_size
      in foldl (\<lambda>st batch_num. foldl body st (batch_files batch_size wav_files batch_num))
           st [0..<total_batches])"

text \<open>The header as it is first written, up to and including the tag \<open>data\<close>; the
  placeholder of the data size follows it.\<close>

definition header_fields :: "wave_params \<Rightarrow> (exn + byte list) list" where
  "header_fields params =
     [Inr (ascii ''RIFF''), pack_L 0, Inr (ascii ''WAVE''),
      Inr (ascii ''fmt ''), pack_L 16, pack_H 1,
      pack_H (int (nchannels params)),
      pack_L (int (framerate params)),
      pack_L (int (framerate params * nchannels params * sampwidth params)),
      pack_H (int (nchannels params * sampwidth params)),
      pack_H (int (sampwidth params * 8)),
      Inr (ascii ''data'')]"

text \<open>How a run ends: the two early returns, an exception of the sort (raised outside
  every \<open>try\<close>), an exception caught by the outer \<open>except\<close>, or completion with the
  report (for \<open>merge_audio_fixed\<close>: the frame total and the chunks reported as left
  out).\<close>

datatype 'r outcome =
  NoFolder | NoFiles | Uncaught exn | MergeFailed exn | Merged 'r

text \<open>The block \<open>with open(output_file, 'wb')\<close>. Its second component is the output
  file as the block leaves it, also when an exception ends the block early.\<close>

definition write_output ::
  "(string \<Rightarrow> exn + wave_read) \<Rightarrow> wave_params \<Rightarrow> string list
     \<Rightarrow> (nat \<times> skip list) outcome \<times> byte list option" where
  "write_output wopen params wav_files =
     (case write_fields (header_fields params) open_wb of
        (Some e, h) \<Rightarrow> (MergeFailed e, Some (content h))
      | (None, h) \<Rightarrow>
          let data_size_pos = ftell h
          in (case write_fields [pack_L 0] h of
                (Some e, h) \<Rightarrow> (MergeFailed e, Some (content h))
              | (None, h) \<Rightarrow>
                  let data_start_pos = ftell h;
                      st = for_batches 100 (merge_file wopen params) wav_files
                             \<lparr>out = h, total_frames = 0, skipped = []\<rparr>;
                      current_pos = ftell (out st);
                      data_size = int current_pos - int data_start_pos;
                      file_size = int current_pos - 8
                  in (case write_fields [pack_L file_size] (fseek 4 (out st)) of
                        (Some e, h) \<Rightarrow> (MergeFailed e, Some (content h))
                      | (None, h) \<Rightarrow>
                          (case write_fields [pack_L data_size] (fseek data_size_pos h) of
                             (Some e, h) \<Rightarrow> (MergeFailed e, Some (content h))
                           | (None, h) \<Rightarrow>
                               (Merged (total_frames st, skipped st), Some (content h))))))"

text \<open>What the run finds (failures of the file system on writing, such as a full disk,
  are not modelled): whether \<open>temp_audio_chunks\<close> exists, what
  \<open>glob.glob("temp_audio_chunks/chunk_*.wav")\<close> returns, what \<open>wave.open\<close> gives for a
  path, and the output file before the run (\<open>None\<close>: no such file).\<close>

record env =
  folder_exists :: bool
  glob_chunks :: "string list"
  wave_open :: "string \<Rightarrow> exn + wave_read"
  output_file :: "byte list option"

definition merge_audio_fixed :: "env \<Rightarrow> (nat \<times> skip list) outcome \<times> byte list option" where
  "merge_audio_fixed e =
     (if \<not> folder_exists e then (NoFolder, output_file e)
      else let wav_files = glob_chunks e
           in if wav_files = [] then (NoFiles, output_file e)
              else (case sort_wav_files wav_files of
                      Inl x \<Rightarrow> (Uncaught x, output_file e)
                    | Inr wav_files \<Rightarrow>
                        (case wave_open e (hd wav_files) of
                           Inl x \<Rightarrow> (MergeFailed x, output_file e)
                         | Inr first_wav \<Rightarrow>
                             write_output (wave_open e) (getparams first_wav) wav_files)))"

section \<open>The merge tools that write through the wave module\<close>

text \<open>
  \<open>merge_wav_files\<close> and \<open>merge_audio_fast\<close> hand the frames to a writer of the
  \<open>wave\<close> module (\<open>Wave_write\<close>). The writer is modelled with the state the module
  keeps: the file it opened with mode \<open>'wb'\<close>, the parameters set so far (zero while
  unset), whether the header has been written, the data length the header announces, the
  number of data bytes written, and the positions of the two size fields. Each method
  below is the method of the module with its raises written out: \<open>wave.Error\<close> for
  parameters the writer does not take, \<open>struct.error\<close> for a header value that does not
  fit its field. A method that raises leaves the writer as it is at the raise. (The byte
  swap of big-endian machines is left out.)
\<close>

record wave_write =
  wfile :: file_handle
  wparams :: wave_params
  headerwritten :: bool
  datalength :: nat
  datawritten :: nat
  form_length_pos :: nat
  data_length_pos :: nat

text \<open>\<open>wave.open(output_file, 'wb')\<close>: the file is created or emptied, nothing is set.\<close>

definition wave_open_wb :: wave_write where
  "wave_open_wb =
     \<lparr>wfile = open_wb,
      wparams = \<lparr>nchannels = 0, sampwidth = 0, framerate = 0, nframes = 0\<rparr>,
      headerwritten = False, datalength = 0, datawritten = 0,
      form_length_pos = 0, data_length_pos = 0\<rparr>"

text \<open>\<open>setparams\<close> sets the channels, the sample width, the frame rate and the frame
  count in this order; the setter that refuses its value raises, and the values before it
  stay set.\<close>

definition setparams :: "wave_params \<Rightarrow> wave_write \<Rightarrow> exn option \<times> wave_write" where
  "setparams params w =
     (if datawritten w \<noteq> 0 then (Some WaveError, w)
      else if nchannels params < 1 then (Some WaveError, w)
      else let w = w\<lparr>wparams := (wparams w)\<lparr>nchannels := nchannels params\<rparr>\<rparr>
           in if sampwidth params < 1 \<or> 4 < sampwidth params then (Some WaveError, w)
              else let w = w\<lparr>wparams := (wparams w)\<lparr>sampwidth := sampwidth params\<rparr>\<rparr>
                   in if framerate params < 1 then (Some WaveError, w)
                      else (None, w\<lparr>wparams := (wparams w)\<lparr>framerate := framerate params,
                                                          nframes := nframes params\<rparr>\<rparr>))"

text \<open>One \<open>struct.pack\<close> of several values: all of them, or the exception.\<close>

definition pack_all :: "(exn + byte list) list \<Rightarrow> exn + byte list" where
  "pack_all packed =
     (case first_error packed of
        Some e \<Rightarrow> Inl e
      | None \<Rightarrow> Inr (concat (map (\<lambda>x. case x of Inr bs \<Rightarrow> bs | Inl _ \<Rightarrow> []) packed)))"

text \<open>\<open>_write_header(initlength)\<close>: the tag \<open>RIFF\<close> is written first; the announced
  length comes from the frame count set by \<open>setparams\<close>, or from \<open>initlength\<close> when that
  count is zero; then the header is packed in one piece, and the data length after it.\<close>

definition write_header :: "nat \<Rightarrow> wave_write \<Rightarrow> exn option \<times> wave_write" where
  "write_header initlength w =
     (let f = fwrite (ascii ''RIFF'') (wfile w);
          p = (if nframes (wparams w) = 0
               then (wparams w)\<lparr>nframes :=
                      initlength div (nchannels (wparams w) * sampwidth (wparams w))\<rparr>
               else wparams w);
          len = nframes p * nchannels p * sampwidth p;
          w = w\<lparr>wfile := f, wparams := p, datalength := len, form_length_pos := ftell f\<rparr>
      in case pack_all
                [pack_L (36 + int len), Inr (ascii ''WAVE''), Inr (ascii ''fmt ''),
                 pack_L 16, pack_H 1,
                 pack_H (int (nchannels p)),
                 pack_L (int (framerate p)),
                 pack_L (int (nchannels p * framerate p * sampwidth p)),
                 pack_H (int (nchannels p * sampwidth p)),
                 pack_H (int (sampwidth p * 8)),
                 Inr (ascii ''data'')] of
           Inl e \<Rightarrow> (Some e, w)
         | Inr bs \<Rightarrow>
             let f = fwrite bs f;
                 w = w\<lparr>wfile := f, data_length_pos := ftell f\<rparr>
             in (case pack_L (int len) of
                   Inl e \<Rightarrow> (Some e, w)
                 | Inr bs \<Rightarrow> (None, w\<lparr>wfile := fwrite bs f, headerwritten := True\<rparr>)))"

definition ensure_header_written :: "nat \<Rightarrow> wave_write \<Rightarrow> exn option \<times> wave_write" where
  "ensure_header_written datasize w =
     (if headerwritten w then (None, w)
      else if nchannels (wparams w) = 0 then (Some WaveError, w)
      else if sampwidth (wparams w) = 0 then (Some WaveError, w)
      else if framerate (wparams w) = 0 then (Some WaveError, w)
      else write_header datasize w)"

text \<open>\<open>_patchheader()\<close>: seek to each size field and overwrite it with the size now
  known, then seek back. The value is packed after the seek, so a value that does not fit
  leaves the file at the position of the field.\<close>

definition patchheader :: "wave_write \<Rightarrow> exn option \<times> wave_write" where
  "patchheader w =
     (if datawritten w = datalength w then (None, w)
      else let curpos = ftell (wfile w);
               f = fseek (form_length_pos w) (wfile w)
           in case pack_L (36 + int (datawritten w)) of
                Inl e \<Rightarrow> (Some e, w\<lparr>wfile := f\<rparr>)
              | Inr bs \<Rightarrow>
                  let f = fseek (data_length_pos w) (fwrite bs f)
                  in (case pack_L (int (datawritten w)) of
                        Inl e \<Rightarrow> (Some e, w\<lparr>wfile := f\<rparr>)
                      | Inr bs \<Rightarrow>
                          (None, w\<lparr>wfile := fseek curpos (fwrite bs f),
                                    datalength := datawritten w\<rparr>)))"

definition writeframesraw :: "byte list \<Rightarrow> wave_write \<Rightarrow> exn option \<times> wave_write" where
  "writeframesraw frames w =
     (case ensure_header_written (length frames) w of
        (Some e, w) \<Rightarrow> (Some e, w)
      | (None, w) \<Rightarrow>
          (None, w\<lparr>wfile := fwrite frames (wfile w),
                    datawritten := datawritten w + length frames\<rparr>))"

definition writeframes :: "byte list \<Rightarrow> wave_write \<Rightarrow> exn option \<times> wave_write" where
  "writeframes frames w =
     (case writeframesraw frames w of
        (Some e, w) \<Rightarrow> (Some e, w)
      | (None, w) \<Rightarrow> if datalength w \<noteq> datawritten w then patchheader w else (None, w))"

text \<open>\<open>close()\<close>, which the end of the \<open>with\<close> block calls: the header is written if
  it has not been, and patched if the announced length is not the length written.\<close>

definition wave_close :: "wave_write \<Rightarrow> exn option \<times> wave_write" where
  "wave_close w =
     (case ensure_header_written 0 w of
        (Some e, w) \<Rightarrow> (Some e, w)
      | (None, w) \<Rightarrow> if datalength w \<noteq> datawritten w then patchheader w else (None, w))"

text \<open>The output file of these two tools after a run: never opened, or opened and
  holding the bytes the writer left in it.\<close>

datatype wave_out = NotOpened | Holds "byte list"

datatype 'a result = Raised exn | Returned 'a

text \<open>The loop body of \<open>merge_wav_files\<close>. Its inner \<open>try\<close> encloses the opening of the
  chunk and \<open>writeframes\<close>; whatever is raised there is printed with the path as it is,
  and so is the mismatch.\<close>

definition copy_checked ::
  "(string \<Rightarrow> exn + wave_read) \<Rightarrow> wave_params \<Rightarrow> wave_write \<times> skip list \<Rightarrow> string
     \<Rightarrow> wave_write \<times> skip list" where
  "copy_checked wopen params st wav_file =
     (case wopen wav_file of
        Inl e \<Rightarrow> (fst st, snd st @ [Corrupt wav_file e])
      | Inr input_wav \<Rightarrow>
          if first4 (getparams input_wav) \<noteq> first4 params
          then (fst st, snd st @ [Mismatch wav_file])
          else let frames = readframes input_wav (getnframes input_wav)
               in (case writeframes frames (fst st) of
                     (Some e, output_wav) \<Rightarrow> (output_wav, snd st @ [Corrupt wav_file e])
                   | (None, output_wav) \<Rightarrow> (output_wav, snd st)))"

text \<open>\<open>merge_wav_files(input_folder, output_file)\<close>, on what the glob over
  \<open>input_folder\<close> and \<open>wave.open\<close> give: the value returned (or the exception of the
  sort, which no \<open>try\<close> encloses), the lines printed for chunks, and the output file. An
  exception of \<open>setparams\<close> or of the closing of the writer reaches the outer \<open>except\<close>,
  which returns \<open>False\<close>. After a writer that closed, the function reads the file back
  for the size and duration lines and returns \<open>True\<close>; those lines are not modelled.\<close>

definition merge_wav_files :: "env \<Rightarrow> bool result \<times> skip list \<times> wave_out" where
  "merge_wav_files e =
     (let wav_files = glob_chunks e
      in if wav_files = [] then (Returned False, [], NotOpened)
         else (case sort_wav_files wav_files of
                 Inl x \<Rightarrow> (Raised x, [], NotOpened)
               | Inr wav_files \<Rightarrow>
                   (case wave_open e (hd wav_files) of
                      Inl x \<Rightarrow> (Returned False, [], NotOpened)
                    | Inr first_wav \<Rightarrow>
                        let params = getparams first_wav
                        in (case setparams params wave_open_wb of
                              (Some x, output_wav) \<Rightarrow>
                                (Returned False, [],
                                 Holds (content (wfile (snd (wave_close output_wav)))))
                            | (None, output_wav) \<Rightarrow>
                                let st = foldl (copy_checked (wave_open e) params)
                                           (output_wav, []) wav_files
                                in (case wave_close (fst st) of
                                      (Some x, output_wav) \<Rightarrow>
                                        (Returned False, snd st, Holds (content (wfile output_wav)))
                                    | (None, output_wav) \<Rightarrow>
                                        (Returned True, snd st,
                                         Holds (content (wfile output_wav))))))))"

text \<open>The loop body of \<open>merge_audio_fast\<close>: no comparison of parameters, and the
  message for whatever is raised in its \<open>try\<close> prints the base name only.\<close>

definition copy_unchecked ::
  "(string \<Rightarrow> exn + wave_read) \<Rightarrow> wave_write \<times> string list \<Rightarrow> string
     \<Rightarrow> wave_write \<times> string list" where
  "copy_unchecked wopen st wav_file =
     (case wopen wav_file of
        Inl e \<Rightarrow> (fst st, snd st @ [basename wav_file])
      | Inr input_wav \<Rightarrow>
          let frames = readframes input_wav (getnframes input_wav)
          in (case writeframes frames (fst st) of
                (Some e, output_wav) \<Rightarrow> (output_wav, snd st @ [basename wav_file])
              | (None, output_wav) \<Rightarrow> (output_wav, snd st)))"

text \<open>\<open>merge_audio_fast\<close> has the shape of \<open>merge_audio_fixed\<close>; a completed run
  carries the names of the files it reported as damaged. The exception that reaches the
  outer \<open>except\<close> is the one of the closing of the writer, when that raises.\<close>

definition merge_audio_fast :: "env \<Rightarrow> string list outcome \<times> wave_out" where
  "merge_audio_fast e =
     (if \<not> folder_exists e then (NoFolder, NotOpened)
      else let wav_files = glob_chunks e
           in if wav_files = [] then (NoFiles, NotOpened)
              else (case sort_wav_files wav_files of
                      Inl x \<Rightarrow> (Uncaught x, NotOpened)
                    | Inr wav_files \<Rightarrow>
                        (case wave_open e (hd wav_files) of
                           Inl x \<Rightarrow> (MergeFailed x, NotOpened)
                         | Inr first_wav \<Rightarrow>
                             let params = getparams first_wav
                             in (case setparams params wave_open_wb of
                                   (Some x, output_wav) \<Rightarrow>
                                     (case wave_close output_wav of
                                        (Some y, output_wav) \<Rightarrow>
                                          (MergeFailed y, Holds (content (wfile output_wav)))
                                      | (None, output_wav) \<Rightarrow>
                                          (MergeFailed x, Holds (content (wfile output_wav))))
                                 | (None, output_wav) \<Rightarrow>
                                     let st = for_batches 50 (copy_unchecked (wave_open e))
                                                wav_files (output_wav, [])
                                     in (case wave_close (fst st) of
                                           (Some x, output_wav) \<Rightarrow>
                                             (MergeFailed x, Holds (content (wfile output_wav)))
                                         | (None, output_wav) \<Rightarrow>
                                             (Merged (snd st),
                                              Holds (content (wfile output_wav))))))))"

section \<open>Vocabulary for the properties of the merge\<close>

text \<open>A chunk passes when it opens and its first four parameters equal those of the
  reference; \<open>frames_of\<close> and \<open>frame_count\<close> are what a passing chunk contributes,
  \<open>skip_line\<close> is the line printed for one that does not pass.\<close>

definition passes :: "(string \<Rightarrow> exn + wave_read) \<Rightarrow> wave_params \<Rightarrow> string \<Rightarrow> bool" where
  "passes wopen params f =
     (case wopen f of Inl _ \<Rightarrow> False | Inr w \<Rightarrow> first4 (getparams w) = first4 params)"

definition frames_of :: "(string \<Rightarrow> exn + wave_read) \<Rightarrow> string \<Rightarrow> byte list" where
  "frames_of wopen f = (case wopen f of Inl _ \<Rightarrow> [] | Inr w \<Rightarrow> readframes w (getnframes w))"

definition frame_count :: "(string \<Rightarrow> exn + wave_read) \<Rightarrow> string \<Rightarrow> nat" where
  "frame_count wopen f = (case wopen f of Inl _ \<Rightarrow> 0 | Inr w \<Rightarrow> getnframes w)"

definition skip_line :: "(string \<Rightarrow> exn + wave_read) \<Rightarrow> string \<Rightarrow> skip" where
  "skip_line wopen f =
     (case wopen f of Inl e \<Rightarrow> Corrupt (basename f) e | Inr _ \<Rightarrow> Mismatch (basename f))"

definition at_end :: "file_handle \<Rightarrow> bool" where
  "at_end h \<longleftrightarrow> pos h = length (content h)"


text \<open>\<open>fits\<close>: every header value and the final sizes can be packed into their
  fields. \<open>riff_header\<close> is the 44-byte header of a finished file with \<open>data_len\<close>
  bytes of samples, \<open>first_header\<close> the 40 bytes before the data size as first written.\<close>

definition fits :: "wave_params \<Rightarrow> nat \<Rightarrow> bool" where
  "fits params data_len \<longleftrightarrow>
     nchannels params < 2 ^ 16 \<and> framerate params < 2 ^ 32
     \<and> framerate params * nchannels params * sampwidth params < 2 ^ 32
     \<and> nchannels params * sampwidth params < 2 ^ 16
     \<and> sampwidth params * 8 < 2 ^ 16
     \<and> 36 + data_len < 2 ^ 32"

definition riff_header :: "wave_params \<Rightarrow> nat \<Rightarrow> byte list" where
  "riff_header params data_len =
     ascii ''RIFF'' @ le_bytes 4 (36 + data_len) @ ascii ''WAVE''
     @ ascii ''fmt '' @ le_bytes 4 16 @ le_bytes 2 1
     @ le_bytes 2 (nchannels params) @ le_bytes 4 (framerate params)
     @ le_bytes 4 (framerate params * nchannels params * sampwidth params)
     @ le_bytes 2 (nchannels params * sampwidth params)
     @ le_bytes 2 (sampwidth params * 8)
     @ ascii ''data'' @ le_bytes 4 data_len"

definition merged_data :: "(string \<Rightarrow> exn + wave_read) \<Rightarrow> wave_params \<Rightarrow> string list \<Rightarrow> byte list" where
  "merged_data wopen params fs = concat (map (frames_of wopen) (filter (passes wopen params) fs))"

definition first_header :: "wave_params \<Rightarrow> byte list" where
  "first_header params =
     ascii ''RIFF'' @ le_bytes 4 0 @ ascii ''WAVE''
     @ ascii ''fmt '' @ le_bytes 4 16 @ le_bytes 2 1
     @ le_bytes 2 (nchannels params) @ le_bytes 4 (framerate params)
     @ le_bytes 4 (framerate params * nchannels params * sampwidth params)
     @ le_bytes 2 (nchannels params * sampwidth params)
     @ le_bytes 2 (sampwidth params * 8)
     @ ascii ''data''"


text \<open>The line \<open>merge_wav_files\<close> prints for a chunk that does not pass (the path as
  it is, not the base name).\<close>

definition skip_line_path :: "(string \<Rightarrow> exn + wave_read) \<Rightarrow> string \<Rightarrow> skip" where
  "skip_line_path wopen f =
     (case wopen f of Inl e \<Rightarrow> Corrupt f e | Inr _ \<Rightarrow> Mismatch f)"

text \<open>A chunk file as \<open>chunk_<N>.wav\<close> in a directory: the directory and the digits
  of \<open>N\<close>, the path they spell, and the number \<open>N\<close>.\<close>

definition chunk_path :: "string \<times> string \<Rightarrow> string" where
  "chunk_path = (\<lambda>(d, ds). d @ ''/chunk_'' @ ds @ ''.wav'')"

definition chunk_number :: "string \<times> string \<Rightarrow> int" where
  "chunk_number = (\<lambda>(d, ds). int (decimal ds))"

definition digit_string :: "string \<Rightarrow> bool" where
  "digit_string ds \<longleftrightarrow> ds \<noteq> [] \<and> (\<forall>c\<in>set ds. is_digit c)"


section \<open>The merge inside the converters\<close>

text \<open>
  \<open>txt_to_wav_large\<close> and \<open>txt_to_mp3_large_file\<close> join their chunk files with pydub
  whenever it can be imported: \<open>combined = AudioSegment.empty()\<close>, then for each chunk
  file \<open>combined += AudioSegment.from_wav(chunk_file)\<close> and
  \<open>combined += AudioSegment.silent(duration=...)\<close>. The combined audio is modelled as
  the sequence of segments appended so far; a file that \<open>from_wav\<close> cannot read raises
  and ends the loop. (Without pydub, \<open>txt_to_mp3_large_file\<close> gives up and
  \<open>txt_to_wav_large\<close> hands the files to an external ffmpeg; neither is modelled.)
\<close>

datatype segment = Audio wave_read | Silence nat

fun pydub_combine ::
  "nat \<Rightarrow> (string \<Rightarrow> exn + wave_read) \<Rightarrow> segment list \<Rightarrow> string list \<Rightarrow> exn + segment list" where
  "pydub_combine ms from_wav combined [] = Inr combined"
| "pydub_combine ms from_wav combined (chunk_file # rest) =
     (case from_wav chunk_file of
        Inl e \<Rightarrow> Inl e
      | Inr audio_chunk \<Rightarrow>
          pydub_combine ms from_wav ((combined @ [Audio audio_chunk]) @ [Silence ms]) rest)"

definition txt_to_wav_large_combined ::
  "(string \<Rightarrow> exn + wave_read) \<Rightarrow> string list \<Rightarrow> exn + segment list" where
  "txt_to_wav_large_combined from_wav chunk_files = pydub_combine 300 from_wav [] chunk_files"

definition txt_to_mp3_large_file_combined ::
  "(string \<Rightarrow> exn + wave_read) \<Rightarrow> string list \<Rightarrow> exn + segment list" where
  "txt_to_mp3_large_file_combined from_wav chunk_files = pydub_combine 500 from_wav [] chunk_files"

section \<open>The text chunkers\<close>

text \<open>
  Python strings are sequences of code points, and \<open>len\<close> counts code points, so a
  text is a list of code points here. The sentence terminators of both chunkers are the
  class \<open>[\<dots>.!?]\<close> of the ideographic full stop U+3002, the fullwidth exclamation and
  question marks U+FF01 and U+FF1F, and the three ASCII marks.
\<close>

type_synonym ustring = "nat list"

definition full_stop :: nat where
  "full_stop = 12290"

definition newline :: nat where
  "newline = 10"

definition is_terminator :: "nat \<Rightarrow> bool" where
  "is_terminator c \<longleftrightarrow> c = 12290 \<or> c = 65281 \<or> c = 65311 \<or> c = 46 \<or> c = 33 \<or> c = 63"

definition strip :: "ustring \<Rightarrow> ustring" where
  "strip s = strip_by is_space s"

text \<open>\<open>text.split('\n\n')\<close>: cut at each pair of newlines, scanning from the left.\<close>

fun split_nlnl :: "ustring \<Rightarrow> ustring list" where
  "split_nlnl (a # b # rest) =
     (if a = newline \<and> b = newline then [] # split_nlnl rest
      else (let r = split_nlnl (b # rest) in (a # hd r) # tl r))"
| "split_nlnl s = [s]"

text \<open>\<open>if current_chunk: chunks.append(current_chunk.strip())\<close>.\<close>

definition flush :: "ustring list \<Rightarrow> ustring \<Rightarrow> ustring list" where
  "flush chunks current_chunk =
     (if current_chunk \<noteq> [] then chunks @ [strip current_chunk] else chunks)"

text \<open>\<open>split_text_into_chunks\<close> of \<open>txt_to_mp3_advanced.py\<close>: the body of its loop on
  the state \<open>(chunks, current_chunk)\<close>, and the function.\<close>

fun add_sentence :: "int \<Rightarrow> ustring list \<times> ustring \<Rightarrow> ustring \<Rightarrow> ustring list \<times> ustring" where
  "add_sentence max_chunk_size (chunks, current_chunk) s =
     (let sentence = strip s
      in if sentence = [] then (chunks, current_chunk)
         else if int (length current_chunk) + int (length sentence) < max_chunk_size
              then (chunks, current_chunk @ sentence @ [full_stop])
              else (flush chunks current_chunk, sentence @ [full_stop]))"

definition split_text_into_chunks :: "ustring \<Rightarrow> int \<Rightarrow> ustring list" where
  "split_text_into_chunks text max_chunk_size =
     (let sentences = split_on is_terminator text;
          st = foldl (add_sentence max_chunk_size) ([], []) sentences
      in flush (fst st) (snd st))"

text \<open>\<open>split_text_smart\<close> of \<open>txt_to_wav_large_file.py\<close>: the inner loop over the
  sentences of a paragraph that is too long, the outer loop over the paragraphs, and the
  function.\<close>

fun smart_sentence :: "int \<Rightarrow> ustring list \<times> ustring \<Rightarrow> ustring \<Rightarrow> ustring list \<times> ustring" where
  "smart_sentence max_chunk_size (chunks, current_chunk) s =
     (let sentence = strip s
      in if sentence = [] then (chunks, current_chunk)
         else let sentence = (if is_terminator (last sentence) then sentence
                              else sentence @ [full_stop])
              in if int (length current_chunk) + int (length sentence) < max_chunk_size
                 then (chunks, current_chunk @ sentence)
                 else (flush chunks current_chunk, sentence))"

fun smart_paragraph :: "int \<Rightarrow> ustring list \<times> ustring \<Rightarrow> ustring \<Rightarrow> ustring list \<times> ustring" where
  "smart_paragraph max_chunk_size (chunks, current_chunk) p =
     (let paragraph = strip p
      in if paragraph = [] then (chunks, current_chunk)
         else if int (length paragraph) > max_chunk_size
              then foldl (smart_sentence max_chunk_size) (chunks, current_chunk)
                     (split_on is_terminator paragraph)
              else if int (length current_chunk) + int (length paragraph) < max_chunk_size
                   then (chunks, current_chunk @ paragraph @ [newline])
                   else (flush chunks current_chunk, paragraph @ [newline]))"

definition split_text_smart :: "ustring \<Rightarrow> int \<Rightarrow> ustring list" where
  "split_text_smart text max_chunk_size =
     (let paragraphs = split_nlnl text;
          st = foldl (smart_paragraph max_chunk_size) ([], []) paragraphs
      in flush (fst st) (snd st))"

text \<open>What is left of a text when sentence terminators and whitespace are ignored.\<close>

definition content_of :: "ustring \<Rightarrow> ustring" where
  "content_of s = filter (\<lambda>c. \<not> is_terminator c \<and> \<not> is_space c) s"

section \<open>Vocabulary for the properties of the chunkers\<close>

text \<open>The pieces the chunkers cut sentences from: for \<open>split_text_into_chunks\<close> the
  pieces of the whole text between terminators, for \<open>split_text_smart\<close> the pieces of the
  stripped paragraphs that are longer than the limit.\<close>

definition sentence_fragments :: "ustring \<Rightarrow> ustring set" where
  "sentence_fragments text = set (split_on is_terminator text)"

definition long_paragraph_fragments :: "ustring \<Rightarrow> int \<Rightarrow> ustring set" where
  "long_paragraph_fragments text m =
     (\<Union>p\<in>set (split_nlnl text).
        if m < int (length (strip p)) then set (split_on is_terminator (strip p)) else {})"

text \<open>The pieces of a text as the chunkers take them up: a sentence fragment stripped and
  given its terminator (nothing, when it is blank), and a paragraph stripped, or cut into
  such sentences when it is longer than the limit. \<open>tidy\<close> says of the unit being built
  that stripping takes nothing from it but a final newline, and \<open>joined\<close> is what has
  been collected so far, newlines left out.\<close>

definition terminated :: "ustring \<Rightarrow> ustring" where
  "terminated s = (if strip s = [] then [] else strip s @ [full_stop])"

definition paragraph_pieces :: "int \<Rightarrow> ustring \<Rightarrow> ustring" where
  "paragraph_pieces m p =
     (if strip p = [] then []
      else if m < int (length (strip p))
           then concat (map terminated (split_on is_terminator (strip p)))
           else strip p)"

definition without_newlines :: "ustring \<Rightarrow> ustring" where
  "without_newlines s = filter (\<lambda>c. c \<noteq> newline) s"

definition tidy :: "ustring \<Rightarrow> bool" where
  "tidy cur \<longleftrightarrow>
     cur = [] \<or> (\<exists>b. b \<noteq> [] \<and> \<not> is_space (hd b) \<and> \<not> is_space (last b)
                     \<and> (cur = b \<or> cur = b @ [newline]))"

definition joined :: "ustring list \<times> ustring \<Rightarrow> ustring" where
  "joined st = without_newlines (concat (fst st)) @ without_newlines (snd st)"

text \<open>The invariant of the chunking loops: \<open>good\<close> is what is shown of every unit,
  \<open>inv\<close> says it of the units collected so far and of the unit being built, and
  \<open>kept\<close> is the content collected so far.\<close>

definition good :: "ustring set \<Rightarrow> int \<Rightarrow> ustring \<Rightarrow> bool" where
  "good S m u \<longleftrightarrow> int (length u) \<le> m \<or> (\<exists>s\<in>S. strip s \<noteq> [] \<and> u = strip s @ [full_stop])"

definition inv :: "ustring set \<Rightarrow> int \<Rightarrow> ustring list \<times> ustring \<Rightarrow> bool" where
  "inv S m st \<longleftrightarrow> (\<forall>u\<in>set (fst st). good S m u) \<and> (snd st = [] \<or> good S m (strip (snd st)))"

definition kept :: "ustring list \<times> ustring \<Rightarrow> ustring" where
  "kept st = content_of (concat (fst st)) @ content_of (snd st)"

text \<open>For the units longer than the limit: \<open>held u st\<close> says that the unit \<open>u\<close> has
  been collected or is the unit being built, and \<open>oversized\<close> that a unit is longer than
  the limit and unchanged by stripping.\<close>

definition held :: "ustring \<Rightarrow> ustring list \<times> ustring \<Rightarrow> bool" where
  "held u st \<longleftrightarrow> u \<in> set (fst st) \<or> snd st = u"

definition oversized :: "int \<Rightarrow> ustring \<Rightarrow> bool" where
  "oversized m u \<longleftrightarrow> m < int (length u) \<and> u \<noteq> [] \<and> strip u = u"

section \<open>Example chunk folders\<close>

text \<open>Small mono 16-bit 22050 Hz chunks and three folders built from them, used where a
  property is shown on a concrete run: two readable chunks of one and of two frames, the
  same folder with the first chunk unreadable, and with the second chunk unreadable.\<close>

definition mono16 :: "nat \<Rightarrow> byte list \<Rightarrow> wave_read" where
  "mono16 n bs = \<lparr>nchannels = 1, sampwidth = 2, framerate = 22050, nframes = n, pcm = bs\<rparr>"

definition two_chunks :: "string \<Rightarrow> exn + wave_read" where
  "two_chunks p =
     (if p = ''temp_audio_chunks/chunk_0.wav'' then Inr (mono16 1 [1, 2])
      else if p = ''temp_audio_chunks/chunk_1.wav'' then Inr (mono16 2 [3, 4, 5, 6])
      else Inl OSError)"

definition unreadable_first :: "string \<Rightarrow> exn + wave_read" where
  "unreadable_first p =
     (if p = ''temp_audio_chunks/chunk_1.wav'' then Inr (mono16 2 [3, 4, 5, 6])
      else Inl WaveError)"

definition unreadable_second :: "string \<Rightarrow> exn + wave_read" where
  "unreadable_second p =
     (if p = ''temp_audio_chunks/chunk_0.wav'' then Inr (mono16 1 [1, 2]) else Inl OSError)"

text \<open>The two readable chunks again, found under the numbers 5 and 7.\<close>

definition renumbered :: "string \<Rightarrow> exn + wave_read" where
  "renumbered p =
     (if p = ''temp_audio_chunks/chunk_5.wav'' then Inr (mono16 1 [1, 2])
      else if p = ''temp_audio_chunks/chunk_7.wav'' then Inr (mono16 2 [3, 4, 5, 6])
      else Inl OSError)"

section \<open>The batch loop and the body of the merge\<close>

lemma fwrite_at_end:
  "at_end h \<Longrightarrow> fwrite bs h = \<lparr>content = content h @ bs, pos = pos h + length bs\<rparr>"
  by (simp add: fwrite_def at_end_def)

lemma at_end_fwrite: "at_end h \<Longrightarrow> at_end (fwrite bs h)"
  by (simp add: fwrite_at_end) (simp add: at_end_def)

lemma merge_file_cases:
  "merge_file wopen params st f =
     (if passes wopen params f
      then st\<lparr>out := fwrite (frames_of wopen f) (out st),
              total_frames := total_frames st + frame_count wopen f\<rparr>
      else st\<lparr>skipped := skipped st @ [skip_line wopen f]\<rparr>)"
  by (simp add: merge_file_def passes_def frames_of_def frame_count_def skip_line_def Let_def
      split: sum.splits)

lemma merge_loop:
  "at_end (out st) \<Longrightarrow>
   foldl (merge_file wopen params) st fs =
     \<lparr>out = \<lparr>content = content (out st)
                  @ concat (map (frames_of wopen) (filter (passes wopen params) fs)),
             pos = pos (out st)
                  + length (concat (map (frames_of wopen) (filter (passes wopen params) fs)))\<rparr>,
      total_frames = total_frames st
         + sum_list (map (frame_count wopen) (filter (passes wopen params) fs)),
      skipped = skipped st
         @ map (skip_line wopen) (filter (\<lambda>f. \<not> passes wopen params f) fs)\<rparr>"
proof (induction fs arbitrary: st)
  case Nil
  then show ?case by simp
next
  case (Cons f fs)
  show ?case
  proof (cases "passes wopen params f")
    case True
    let ?st = "st\<lparr>out := fwrite (frames_of wopen f) (out st),
              total_frames := total_frames st + frame_count wopen f\<rparr>"
    have e: "at_end (out ?st)" using Cons.prems by (simp add: at_end_fwrite)
    show ?thesis
      using True Cons.IH [OF e] Cons.prems
      by (simp add: merge_file_cases fwrite_at_end)
  next
    case False
    let ?st = "st\<lparr>skipped := skipped st @ [skip_line wopen f]\<rparr>"
    have e: "at_end (out ?st)" using Cons.prems by simp
    show ?thesis
      using False Cons.IH [OF e]
      by (simp add: merge_file_cases)
  qed
qed

lemma foldl_batches_concat:
  "foldl (\<lambda>st b. foldl body st (f b)) st bs = foldl body st (concat (map f bs))"
  by (induction bs arbitrary: st) simp_all

lemma batch_files_take:
  "batch_files bs xs k = take bs (drop (k * bs) xs)"
  by (simp add: batch_files_def Let_def min_def)

lemma concat_batches_take:
  "concat (map (batch_files bs xs) [0..<n]) = take (n * bs) xs"
proof (induction n)
  case 0
  show ?case by simp
next
  case (Suc n)
  have "take (n * bs) xs @ take bs (drop (n * bs) xs) = take (n * bs + bs) xs"
    by (simp add: take_add)
  with Suc show ?case
    by (simp add: batch_files_take add.commute)
qed

lemma total_batches_cover:
  assumes "0 < bs"
  shows "length xs \<le> ((length xs + bs - 1) div bs) * bs"
proof -
  have "(length xs + bs - 1) div bs * bs = (length xs + bs - 1) - (length xs + bs - 1) mod bs"
    by (simp add: minus_mod_eq_div_mult)
  moreover have "(length xs + bs - 1) mod bs < bs" using assms by simp
  ultimately show ?thesis using assms by linarith
qed

lemma for_batches_foldl:
  assumes "0 < bs"
  shows "for_batches bs body xs st = foldl body st xs"
proof -
  have "take (((length xs + bs - 1) div bs) * bs) xs = xs"
    using total_batches_cover [OF assms, of xs] by simp
  then show ?thesis
    unfolding for_batches_def Let_def foldl_batches_concat concat_batches_take by simp
qed


section \<open>Packing and the header\<close>

lemma unat_byte: "unat (of_nat k :: byte) = k mod 256"
  by (simp add: unat_of_nat)

lemma le_bytes_Suc: "le_bytes (Suc k) n = of_nat n # le_bytes k (n div 256)"
  by (simp add: le_bytes_def map_upt_Suc div_mult2_eq del: upt_Suc)

lemma unpack_le_Cons: "unpack_le (b # bs) = unat b + 256 * unpack_le bs"
  by (simp add: unpack_le_def)

lemma unpack_le_bytes: "unpack_le (le_bytes k n) = n mod 256 ^ k"
proof (induction k arbitrary: n)
  case 0
  show ?case by (simp add: le_bytes_def unpack_le_def)
next
  case (Suc k)
  show ?case
    by (simp add: le_bytes_Suc unpack_le_Cons unat_byte Suc.IH mod_mult2_eq)
qed

lemma unpack_le_4:
  assumes "n < 2 ^ 32"
  shows "unpack_le (le_bytes 4 n) = n"
  using assms by (simp add: unpack_le_bytes)

lemma length_le_bytes [simp]: "length (le_bytes k n) = k"
  by (simp add: le_bytes_def)

lemma pack_L_nat: "pack_L (int n) = (if n < 2 ^ 32 then Inr (le_bytes 4 n) else Inl StructError)"
  by (simp add: pack_L_def)

lemma pack_H_nat: "pack_H (int n) = (if n < 2 ^ 16 then Inr (le_bytes 2 n) else Inl StructError)"
  by (simp add: pack_H_def)

lemma pack_L_0: "pack_L 0 = Inr (le_bytes 4 0)"
  using pack_L_nat [of 0] by simp

lemma pack_L_16: "pack_L 16 = Inr (le_bytes 4 16)"
  using pack_L_nat [of 16] by simp

lemma pack_H_1: "pack_H 1 = Inr (le_bytes 2 1)"
  using pack_H_nat [of 1] by simp

lemma header_fields_fits:
  assumes "fits params n"
  shows "header_fields params =
     [Inr (ascii ''RIFF''), Inr (le_bytes 4 0), Inr (ascii ''WAVE''),
      Inr (ascii ''fmt ''), Inr (le_bytes 4 16), Inr (le_bytes 2 1),
      Inr (le_bytes 2 (nchannels params)),
      Inr (le_bytes 4 (framerate params)),
      Inr (le_bytes 4 (framerate params * nchannels params * sampwidth params)),
      Inr (le_bytes 2 (nchannels params * sampwidth params)),
      Inr (le_bytes 2 (sampwidth params * 8)),
      Inr (ascii ''data'')]"
  using assms unfolding header_fields_def pack_L_nat pack_H_nat pack_L_0 pack_L_16 pack_H_1 fits_def
  by simp

lemma write_header_fits:
  assumes "fits params n"
  shows "write_fields (header_fields params) open_wb = (None, \<lparr>content = first_header params, pos = 40\<rparr>)"
  unfolding header_fields_fits [OF assms]
  by (simp add: open_wb_def fwrite_def first_header_def ascii_def)


lemma length_ascii [simp]: "length (ascii s) = length s"
  by (simp add: ascii_def)

lemma fwrite_patch:
  "length a = p \<Longrightarrow> length bs = length b \<Longrightarrow>
   fwrite bs \<lparr>content = a @ b @ c, pos = p\<rparr> = \<lparr>content = a @ bs @ c, pos = p + length bs\<rparr>"
  by (simp add: fwrite_def)

lemma write_output_fits:
  assumes "fits params (length (merged_data wopen params fs))"
  shows "write_output wopen params fs =
    (Merged (sum_list (map (frame_count wopen) (filter (passes wopen params) fs)),
             map (skip_line wopen) (filter (\<lambda>f. \<not> passes wopen params f) fs)),
     Some (riff_header params (length (merged_data wopen params fs)) @ merged_data wopen params fs))"
proof -
  define D where "D = merged_data wopen params fs"
  define M where "M = ascii ''WAVE''
     @ ascii ''fmt '' @ le_bytes 4 16 @ le_bytes 2 1
     @ le_bytes 2 (nchannels params) @ le_bytes 4 (framerate params)
     @ le_bytes 4 (framerate params * nchannels params * sampwidth params)
     @ le_bytes 2 (nchannels params * sampwidth params)
     @ le_bytes 2 (sampwidth params * 8)
     @ ascii ''data''"
  define R where "R = ascii ''RIFF''"
  have lM: "length M = 32" and lR: "length R = 4" by (simp_all add: M_def R_def)
  have fh: "first_header params = R @ le_bytes 4 0 @ M"
    by (simp add: first_header_def M_def R_def)
  have rh: "riff_header params (length D) = R @ le_bytes 4 (36 + length D) @ M @ le_bytes 4 (length D)"
    by (simp add: riff_header_def M_def R_def)
  have big: "36 + length D < 2 ^ 32" using assms by (simp add: fits_def D_def)
  have s1: "write_fields (header_fields params) open_wb
              = (None, \<lparr>content = R @ le_bytes 4 0 @ M, pos = 40\<rparr>)"
    using write_header_fits [OF assms] fh by simp
  have s2: "write_fields [pack_L 0] \<lparr>content = R @ le_bytes 4 0 @ M, pos = 40\<rparr>
              = (None, \<lparr>content = R @ le_bytes 4 0 @ M @ le_bytes 4 0, pos = 44\<rparr>)"
    by (simp add: pack_L_0 fwrite_def lM lR)
  let ?h = "\<lparr>content = R @ le_bytes 4 0 @ M @ le_bytes 4 0, pos = 44\<rparr>"
  let ?st0 = "\<lparr>out = ?h, total_frames = 0, skipped = []\<rparr>"
  have e: "at_end (out ?st0)" by (simp add: at_end_def lM lR)
  have s3: "for_batches 100 (merge_file wopen params) fs ?st0 =
     \<lparr>out = \<lparr>content = (R @ le_bytes 4 0 @ M @ le_bytes 4 0) @ D, pos = 44 + length D\<rparr>,
      total_frames = sum_list (map (frame_count wopen) (filter (passes wopen params) fs)),
      skipped = map (skip_line wopen) (filter (\<lambda>f. \<not> passes wopen params f) fs)\<rparr>"
    using merge_loop [OF e, of wopen params fs]
    by (simp add: for_batches_foldl D_def merged_data_def)
  have p1: "int (44 + length D) - 8 = int (36 + length D)" by simp
  have p2: "int (44 + length D) - int 44 = int (length D)" by simp
  have s4: "write_fields [pack_L (int (44 + length D) - 8)]
              (fseek 4 \<lparr>content = (R @ le_bytes 4 0 @ M @ le_bytes 4 0) @ D, pos = 44 + length D\<rparr>)
           = (None, \<lparr>content = R @ le_bytes 4 (36 + length D) @ (M @ le_bytes 4 0 @ D), pos = 8\<rparr>)"
    unfolding p1 pack_L_nat using big fwrite_patch [of R 4 "le_bytes 4 (36 + length D)" "le_bytes 4 0" "M @ le_bytes 4 0 @ D"]
    by (simp add: fseek_def lR)
  have s5: "write_fields [pack_L (int (44 + length D) - int 44)]
              (fseek 40 \<lparr>content = R @ le_bytes 4 (36 + length D) @ (M @ le_bytes 4 0 @ D), pos = 8\<rparr>)
           = (None, \<lparr>content = (R @ le_bytes 4 (36 + length D) @ M) @ le_bytes 4 (length D) @ D, pos = 44\<rparr>)"
    unfolding p2 pack_L_nat using big fwrite_patch [of "R @ le_bytes 4 (36 + length D) @ M" 40 "le_bytes 4 (length D)" "le_bytes 4 0" D]
    by (simp add: fseek_def lR lM)
  show ?thesis
    unfolding write_output_def s1 prod.case option.case Let_def ftell_def file_handle.simps s2 s3
      merge_state.simps s4 s5
    using rh by (simp add: D_def)
qed

section \<open>The sort key on chunk names\<close>

lemma split_on_none: "\<forall>x\<in>set xs. \<not> P x \<Longrightarrow> split_on P xs = [xs]"
  by (induction xs) simp_all

lemma split_on_first:
  "\<forall>x\<in>set xs. \<not> P x \<Longrightarrow> P y \<Longrightarrow> split_on P (xs @ y # ys) = xs # split_on P ys"
  by (induction xs) simp_all

lemma basename_after_slash:
  assumes "CHR ''/'' \<notin> set name"
  shows "basename (d @ CHR ''/'' # name) = name"
proof -
  have "\<And>x. x \<in> set (rev name) \<Longrightarrow> x \<noteq> CHR ''/''" using assms by auto
  from takeWhile_append2 [of "rev name" "\<lambda>c. c \<noteq> CHR ''/''" "CHR ''/'' # rev d", OF this]
  have "takeWhile (\<lambda>c. c \<noteq> CHR ''/'') (rev name @ CHR ''/'' # rev d) = rev name"
    by simp
  then show ?thesis by (simp add: basename_def)
qed

lemma digit_not_special:
  assumes "is_digit c"
  shows "c \<noteq> CHR ''/''" "c \<noteq> CHR ''_''" "c \<noteq> CHR ''.''" "c \<noteq> CHR ''-''" "c \<noteq> CHR ''+''"
    "\<not> is_space (of_char c)"
  using assms by (auto simp: is_digit_def is_space_def)

lemma grouped_digits_all: "ds \<noteq> [] \<Longrightarrow> \<forall>c\<in>set ds. is_digit c \<Longrightarrow> grouped_digits ds"
  by (induction ds rule: grouped_digits.induct) (auto dest: digit_not_special)

lemma strip_by_id:
  assumes "s \<noteq> []" "\<not> sp (hd s)" "\<not> sp (last s)"
  shows "strip_by sp s = s"
proof -
  have a: "dropWhile sp s = s" using assms by (cases s) simp_all
  have "dropWhile sp (rev s) = rev s" using assms by (cases "rev s") (simp_all add: last_rev [symmetric] hd_rev)
  with a show ?thesis by (simp add: strip_by_def)
qed

lemma py_int_digits:
  assumes "digit_string ds"
  shows "py_int ds = Inr (int (decimal ds))"
proof -
  from assms have ne: "ds \<noteq> []" and dg: "\<forall>c\<in>set ds. is_digit c"
    by (simp_all add: digit_string_def)
  have h: "is_digit (hd ds)" and l: "is_digit (last ds)" using ne dg by simp_all
  have s: "strip_by (\<lambda>c. is_space (of_char c)) ds = ds"
    using ne h l by (intro strip_by_id) (simp_all add: digit_not_special)
  have f: "filter (\<lambda>c. c \<noteq> CHR ''_'') ds = ds"
    using dg by (simp add: filter_id_conv digit_not_special)
  show ?thesis
    using h ne grouped_digits_all [OF ne dg]
    by (simp add: py_int_def s f Let_def digit_not_special)
qed

lemma sort_key_of_chunk:
  assumes "digit_string ds"
  shows "sort_key_of (d @ ''/chunk_'' @ ds @ ''.wav'') = Inr (int (decimal ds))"
proof -
  from assms have dg: "\<forall>c\<in>set ds. is_digit c" by (simp add: digit_string_def)
  have ns: "CHR ''/'' \<notin> set ds" using dg digit_not_special(1) by blast
  have b: "basename (d @ ''/chunk_'' @ ds @ ''.wav'') = ''chunk_'' @ ds @ ''.wav''"
    using basename_after_slash [of "''chunk_'' @ ds @ ''.wav''" d] ns by simp
  have u: "split_on (\<lambda>c. c = CHR ''_'') (''chunk'' @ CHR ''_'' # (ds @ ''.wav''))
             = ''chunk'' # split_on (\<lambda>c. c = CHR ''_'') (ds @ ''.wav'')"
    by (rule split_on_first) simp_all
  have v: "split_on (\<lambda>c. c = CHR ''_'') (ds @ ''.wav'') = [ds @ ''.wav'']"
    using dg by (intro split_on_none) (auto simp: digit_not_special)
  have w: "split_on (\<lambda>c. c = CHR ''.'') (ds @ CHR ''.'' # ''wav'') = ds # split_on (\<lambda>c. c = CHR ''.'') ''wav''"
    using dg by (intro split_on_first) (auto simp: digit_not_special)
  show ?thesis
    using u v w b by (simp add: sort_key_of_def py_int_digits [OF assms])
qed

lemma first_error_all_Inr: "\<forall>k\<in>set ks. \<exists>v. k = Inr v \<Longrightarrow> first_error ks = None"
  by (induction ks rule: first_error.induct) auto

lemma insort_key_map_cong:
  "\<forall>y\<in>set (x # xs). f (g y) = h y \<Longrightarrow>
   insort_key f (g x) (map g xs) = map g (insort_key h x xs)"
  by (induction xs) simp_all

lemma sort_key_map_cong:
  assumes "\<And>y. y \<in> set xs \<Longrightarrow> f (g y) = h y"
  shows "sort_key f (map g xs) = map g (sort_key h xs)"
  using assms
proof (induction xs)
  case Nil
  show ?case by simp
next
  case (Cons x xs)
  have "insort_key f (g x) (map g (sort_key h xs)) = map g (insort_key h x (sort_key h xs))"
    using Cons.prems by (intro insort_key_map_cong) simp
  with Cons show ?case by simp
qed

lemma sort_wav_files_chunks:
  assumes "\<forall>(d, ds)\<in>set specs. digit_string ds"
  shows "sort_wav_files (map chunk_path specs) = Inr (map chunk_path (sort_key chunk_number specs))"
proof -
  have k: "sort_key_of (chunk_path s) = Inr (chunk_number s)" if "s \<in> set specs" for s
  proof -
    obtain d ds where s: "s = (d, ds)" by (cases s)
    with that assms have "digit_string ds" by auto
    from sort_key_of_chunk [OF this, of d] show ?thesis
      by (simp add: s chunk_path_def chunk_number_def)
  qed
  have "first_error (map sort_key_of (map chunk_path specs)) = None"
    using k by (intro first_error_all_Inr) auto
  moreover have "sort_key (\<lambda>x. case sort_key_of x of Inr k \<Rightarrow> k | Inl _ \<Rightarrow> 0) (map chunk_path specs)
      = map chunk_path (sort_key chunk_number specs)"
    using k by (intro sort_key_map_cong) simp
  ultimately show ?thesis by (simp add: sort_wav_files_def)
qed

section \<open>Complete runs of the merge tools\<close>

lemma merge_audio_fixed_completes:
  assumes "folder_exists e" and "glob_chunks e \<noteq> []"
    and "sort_wav_files (glob_chunks e) = Inr fs"
    and "wave_open e (hd fs) = Inr ref"
    and "fits (getparams ref) (length (merged_data (wave_open e) (getparams ref) fs))"
  shows "merge_audio_fixed e =
    (Merged (sum_list (map (frame_count (wave_open e)) (filter (passes (wave_open e) (getparams ref)) fs)),
             map (skip_line (wave_open e)) (filter (\<lambda>f. \<not> passes (wave_open e) (getparams ref) f) fs)),
     Some (riff_header (getparams ref) (length (merged_data (wave_open e) (getparams ref) fs))
           @ merged_data (wave_open e) (getparams ref) fs))"
  using assms(1-4) write_output_fits [OF assms(5)]
  by (simp add: merge_audio_fixed_def)

lemma copy_checked_not_passing:
  "\<not> passes wopen params f \<Longrightarrow>
   copy_checked wopen params st f = (fst st, snd st @ [skip_line_path wopen f])"
  by (simp add: copy_checked_def passes_def skip_line_path_def split: sum.splits)

lemma copy_checked_keeps_lines:
  "l \<in> set (snd st) \<Longrightarrow> l \<in> set (snd (copy_checked wopen params st f))"
  by (simp add: copy_checked_def Let_def split: sum.splits prod.splits option.splits)

lemma copy_checked_loop_keeps_lines:
  "l \<in> set (snd st) \<Longrightarrow> l \<in> set (snd (foldl (copy_checked wopen params) st fs))"
  by (induction fs arbitrary: st) (simp_all add: copy_checked_keeps_lines)

lemma copy_checked_loop_reports:
  "f \<in> set fs \<Longrightarrow> \<not> passes wopen params f \<Longrightarrow>
   skip_line_path wopen f \<in> set (snd (foldl (copy_checked wopen params) st fs))"
proof (induction fs arbitrary: st)
  case Nil
  then show ?case by simp
next
  case (Cons g fs)
  show ?case
  proof (cases "f = g")
    case True
    with Cons.prems(2)
    have "skip_line_path wopen f \<in> set (snd (copy_checked wopen params st g))"
      by (simp add: copy_checked_not_passing)
    then show ?thesis by (simp add: copy_checked_loop_keeps_lines)
  next
    case False
    with Cons.prems have "f \<in> set fs" by simp
    then show ?thesis using Cons.IH Cons.prems(2) by simp
  qed
qed

lemma merge_wav_files_lines:
  assumes "glob_chunks e \<noteq> []"
    and "sort_wav_files (glob_chunks e) = Inr fs"
    and "wave_open e (hd fs) = Inr ref"
    and "fst (setparams (getparams ref) wave_open_wb) = None"
  shows "fst (snd (merge_wav_files e))
           = snd (foldl (copy_checked (wave_open e) (getparams ref))
                   (snd (setparams (getparams ref) wave_open_wb), []) fs)"
proof -
  obtain w where w: "setparams (getparams ref) wave_open_wb = (None, w)"
    using assms(4) by (cases "setparams (getparams ref) wave_open_wb") simp
  show ?thesis
    using assms(1-3) w
    by (simp add: merge_wav_files_def Let_def split: prod.splits option.splits)
qed

lemma passes_same_channels:
  "passes wopen params f \<Longrightarrow> wopen f = Inr w \<Longrightarrow> nchannels w = nchannels params"
  by (simp add: passes_def first4_def getparams_def wave_params.truncate_def)

lemma length_riff_header: "length (riff_header params n) = 44"
  by (simp add: riff_header_def)

lemma size_fields_of_header:
  assumes "36 + n < 2 ^ 32"
  shows "unpack_le (take 4 (drop 4 (riff_header params n @ D))) = 36 + n"
    and "unpack_le (take 4 (drop 40 (riff_header params n @ D))) = n"
proof -
  have n: "n < 2 ^ 32" using assms by simp
  have "take 4 (drop 4 (riff_header params n @ D)) = le_bytes 4 (36 + n)"
    by (simp add: riff_header_def)
  then show "unpack_le (take 4 (drop 4 (riff_header params n @ D))) = 36 + n"
    using assms by (simp add: unpack_le_4)
  have "take 4 (drop 40 (riff_header params n @ D)) = le_bytes 4 n"
    by (simp add: riff_header_def)
  then show "unpack_le (take 4 (drop 40 (riff_header params n @ D))) = n"
    using n by (simp add: unpack_le_4)
qed

lemma size_fields_exact:
  assumes "folder_exists e" and "glob_chunks e \<noteq> []"
    and "sort_wav_files (glob_chunks e) = Inr fs"
    and "wave_open e (hd fs) = Inr ref"
    and "fits (getparams ref) (length (merged_data (wave_open e) (getparams ref) fs))"
  shows "\<exists>bytes. snd (merge_audio_fixed e) = Some bytes
      \<and> drop 44 bytes = merged_data (wave_open e) (getparams ref) fs
      \<and> int (unpack_le (take 4 (drop 4 bytes))) = int (length bytes) - 8
      \<and> unpack_le (take 4 (drop 40 bytes)) = length (drop 44 bytes)"
proof -
  let ?D = "merged_data (wave_open e) (getparams ref) fs"
  have b: "36 + length ?D < 2 ^ 32" using assms(5) by (simp add: fits_def)
  show ?thesis
    using merge_audio_fixed_completes [OF assms] size_fields_of_header [OF b, of "getparams ref" ?D]
    by (simp add: length_riff_header)
qed

lemma pydub_combine_all:
  "\<forall>f\<in>set fs. from_wav f = Inr (wav f) \<Longrightarrow>
   pydub_combine ms from_wav combined fs
     = Inr (combined @ concat (map (\<lambda>f. [Audio (wav f), Silence ms]) fs))"
  by (induction fs arbitrary: combined) simp_all

lemma skip_line_Inl: "wopen f = Inl x \<Longrightarrow> skip_line wopen f = Corrupt (basename f) x"
  by (simp add: skip_line_def)

lemma skip_line_Inr: "wopen f = Inr w \<Longrightarrow> skip_line wopen f = Mismatch (basename f)"
  by (simp add: skip_line_def)

lemma not_passes_Inl: "wopen f = Inl x \<Longrightarrow> \<not> passes wopen params f"
  by (simp add: passes_def)

lemma nchannels_getparams: "nchannels (getparams w) = nchannels w"
  by (simp add: getparams_def wave_params.truncate_def)

section \<open>Runs that find the same chunk contents\<close>

lemma merge_file_by_content:
  assumes "w1 f1 = w2 f2" and "out s1 = out s2" and "total_frames s1 = total_frames s2"
  shows "out (merge_file w1 p s1 f1) = out (merge_file w2 p s2 f2)
       \<and> total_frames (merge_file w1 p s1 f1) = total_frames (merge_file w2 p s2 f2)"
  using assms by (simp add: merge_file_def Let_def split: sum.splits)

lemma merge_loop_by_content:
  assumes "map w1 fs1 = map w2 fs2" and "out s1 = out s2" and "total_frames s1 = total_frames s2"
  shows "out (foldl (merge_file w1 p) s1 fs1) = out (foldl (merge_file w2 p) s2 fs2)
       \<and> total_frames (foldl (merge_file w1 p) s1 fs1)
           = total_frames (foldl (merge_file w2 p) s2 fs2)"
  using assms
proof (induction fs1 arbitrary: fs2 s1 s2)
  case Nil
  then show ?case by simp
next
  case (Cons f fs)
  from Cons.prems(1) obtain g gs where fs2: "fs2 = g # gs" and h: "w1 f = w2 g"
    and t: "map w1 fs = map w2 gs"
    by (cases fs2) simp_all
  from merge_file_by_content [of w1 f w2 g s1 s2 p, OF h Cons.prems(2,3)]
  have a: "out (merge_file w1 p s1 f) = out (merge_file w2 p s2 g)"
    and b: "total_frames (merge_file w1 p s1 f) = total_frames (merge_file w2 p s2 g)"
    by simp_all
  from Cons.IH [OF t a b] show ?case by (simp add: fs2)
qed

lemma write_output_by_content:
  assumes "map w1 fs1 = map w2 fs2"
  shows "snd (write_output w1 p fs1) = snd (write_output w2 p fs2)
       \<and> snd (write_output w1 p fs1) \<noteq> None
       \<and> map_outcome fst (fst (write_output w1 p fs1))
           = map_outcome fst (fst (write_output w2 p fs2))"
proof -
  have l: "out (foldl (merge_file w1 p) \<lparr>out = h, total_frames = 0, skipped = []\<rparr> fs1)
             = out (foldl (merge_file w2 p) \<lparr>out = h, total_frames = 0, skipped = []\<rparr> fs2)
         \<and> total_frames (foldl (merge_file w1 p) \<lparr>out = h, total_frames = 0, skipped = []\<rparr> fs1)
             = total_frames (foldl (merge_file w2 p) \<lparr>out = h, total_frames = 0, skipped = []\<rparr> fs2)"
    for h
    by (rule merge_loop_by_content [OF assms]) simp_all
  show ?thesis
    using l
    by (simp add: write_output_def for_batches_foldl Let_def split: prod.splits option.splits)
qed

lemma sort_wav_files_length: "sort_wav_files xs = Inr fs \<Longrightarrow> length fs = length xs"
  by (auto simp: sort_wav_files_def split: option.splits)

section \<open>The example folders\<close>

lemma getparams_mono16:
  "getparams (mono16 n bs) = \<lparr>nchannels = 1, sampwidth = 2, framerate = 22050, nframes = n\<rparr>"
  by (simp add: getparams_def mono16_def wave_params.truncate_def)

lemma sort_two:
  "sort_wav_files [''temp_audio_chunks/chunk_0.wav'', ''temp_audio_chunks/chunk_1.wav'']
     = Inr [''temp_audio_chunks/chunk_0.wav'', ''temp_audio_chunks/chunk_1.wav'']"
  using sort_wav_files_chunks [of "[(''temp_audio_chunks'', ''0''), (''temp_audio_chunks'', ''1'')]"]
  by (simp add: chunk_path_def chunk_number_def digit_string_def is_digit_def decimal_def
      digit_val_def)

lemma sort_renumbered:
  "sort_wav_files [''temp_audio_chunks/chunk_7.wav'', ''temp_audio_chunks/chunk_5.wav'']
     = Inr [''temp_audio_chunks/chunk_5.wav'', ''temp_audio_chunks/chunk_7.wav'']"
  using sort_wav_files_chunks [of "[(''temp_audio_chunks'', ''7''), (''temp_audio_chunks'', ''5'')]"]
  by (simp add: chunk_path_def chunk_number_def digit_string_def is_digit_def decimal_def
      digit_val_def)

lemma two_chunks_passes:
  "passes two_chunks \<lparr>nchannels = 1, sampwidth = 2, framerate = 22050, nframes = 1\<rparr>
     ''temp_audio_chunks/chunk_0.wav''"
  "\<not> passes two_chunks \<lparr>nchannels = 1, sampwidth = 2, framerate = 22050, nframes = 1\<rparr>
     ''temp_audio_chunks/chunk_1.wav''"
  by (simp_all add: passes_def two_chunks_def first4_def getparams_mono16)

lemma two_chunks_data:
  "merged_data two_chunks \<lparr>nchannels = 1, sampwidth = 2, framerate = 22050, nframes = 1\<rparr>
     [''temp_audio_chunks/chunk_0.wav'', ''temp_audio_chunks/chunk_1.wav''] = [1, 2]"
  using two_chunks_passes
  by (simp add: merged_data_def frames_of_def two_chunks_def readframes_def getnframes_def
      mono16_def)

lemma two_chunks_lines:
  "frame_count two_chunks ''temp_audio_chunks/chunk_0.wav'' = 1"
  "skip_line two_chunks ''temp_audio_chunks/chunk_1.wav'' = Mismatch ''chunk_1.wav''"
  by (simp_all add: frame_count_def skip_line_def two_chunks_def getnframes_def mono16_def
      basename_def)

lemma two_chunks_run:
  fixes e defines "e \<equiv> \<lparr>folder_exists = True,
       glob_chunks = [''temp_audio_chunks/chunk_0.wav'', ''temp_audio_chunks/chunk_1.wav''],
       wave_open = two_chunks, output_file = None\<rparr>"
  shows "folder_exists e" and "glob_chunks e \<noteq> []"
    and "sort_wav_files (glob_chunks e)
           = Inr [''temp_audio_chunks/chunk_0.wav'', ''temp_audio_chunks/chunk_1.wav'']"
    and "wave_open e (hd [''temp_audio_chunks/chunk_0.wav'', ''temp_audio_chunks/chunk_1.wav''])
           = Inr (mono16 1 [1, 2])"
    and "fits (getparams (mono16 1 [1, 2]))
           (length (merged_data (wave_open e) (getparams (mono16 1 [1, 2]))
              [''temp_audio_chunks/chunk_0.wav'', ''temp_audio_chunks/chunk_1.wav'']))"
proof -
  show "folder_exists e" and "glob_chunks e \<noteq> []" by (simp_all add: e_def)
  show "sort_wav_files (glob_chunks e)
           = Inr [''temp_audio_chunks/chunk_0.wav'', ''temp_audio_chunks/chunk_1.wav'']"
    using sort_two by (simp add: e_def)
  show "wave_open e (hd [''temp_audio_chunks/chunk_0.wav'', ''temp_audio_chunks/chunk_1.wav''])
           = Inr (mono16 1 [1, 2])"
    by (simp add: e_def two_chunks_def)
  show "fits (getparams (mono16 1 [1, 2]))
           (length (merged_data (wave_open e) (getparams (mono16 1 [1, 2]))
              [''temp_audio_chunks/chunk_0.wav'', ''temp_audio_chunks/chunk_1.wav'']))"
    using two_chunks_data by (simp add: fits_def e_def getparams_mono16)
qed

lemma unreadable_second_passes:
  "passes unreadable_second \<lparr>nchannels = 1, sampwidth = 2, framerate = 22050, nframes = 1\<rparr>
     ''temp_audio_chunks/chunk_0.wav''"
  "\<not> passes unreadable_second \<lparr>nchannels = 1, sampwidth = 2, framerate = 22050, nframes = 1\<rparr>
     ''temp_audio_chunks/chunk_1.wav''"
  by (simp_all add: passes_def unreadable_second_def first4_def getparams_mono16)

lemma unreadable_second_lines:
  "frame_count unreadable_second ''temp_audio_chunks/chunk_0.wav'' = 1"
  "skip_line unreadable_second ''temp_audio_chunks/chunk_1.wav'' = Corrupt ''chunk_1.wav'' OSError"
  by (simp_all add: frame_count_def skip_line_def unreadable_second_def getnframes_def mono16_def
      basename_def)

lemma unreadable_second_run:
  fixes e defines "e \<equiv> \<lparr>folder_exists = True,
       glob_chunks = [''temp_audio_chunks/chunk_0.wav'', ''temp_audio_chunks/chunk_1.wav''],
       wave_open = unreadable_second, output_file = None\<rparr>"
  shows "folder_exists e" and "glob_chunks e \<noteq> []"
    and "sort_wav_files (glob_chunks e)
           = Inr [''temp_audio_chunks/chunk_0.wav'', ''temp_audio_chunks/chunk_1.wav'']"
    and "wave_open e (hd [''temp_audio_chunks/chunk_0.wav'', ''temp_audio_chunks/chunk_1.wav''])
           = Inr (mono16 1 [1, 2])"
    and "fits (getparams (mono16 1 [1, 2]))
           (length (merged_data (wave_open e) (getparams (mono16 1 [1, 2]))
              [''temp_audio_chunks/chunk_0.wav'', ''temp_audio_chunks/chunk_1.wav'']))"
proof -
  have d: "merged_data unreadable_second
             \<lparr>nchannels = 1, sampwidth = 2, framerate = 22050, nframes = 1\<rparr>
             [''temp_audio_chunks/chunk_0.wav'', ''temp_audio_chunks/chunk_1.wav''] = [1, 2]"
    using unreadable_second_passes
    by (simp add: merged_data_def frames_of_def unreadable_second_def readframes_def
        getnframes_def mono16_def)
  show "folder_exists e" and "glob_chunks e \<noteq> []" by (simp_all add: e_def)
  show "sort_wav_files (glob_chunks e)
           = Inr [''temp_audio_chunks/chunk_0.wav'', ''temp_audio_chunks/chunk_1.wav'']"
    using sort_two by (simp add: e_def)
  show "wave_open e (hd [''temp_audio_chunks/chunk_0.wav'', ''temp_audio_chunks/chunk_1.wav''])
           = Inr (mono16 1 [1, 2])"
    by (simp add: e_def unreadable_second_def)
  show "fits (getparams (mono16 1 [1, 2]))
           (length (merged_data (wave_open e) (getparams (mono16 1 [1, 2]))
              [''temp_audio_chunks/chunk_0.wav'', ''temp_audio_chunks/chunk_1.wav'']))"
    using d by (simp add: fits_def e_def getparams_mono16)
qed

section \<open>Header values the writer cannot pack\<close>

text \<open>A first chunk that announces 2147483647 frames, and one of 40000 channels: the
  writer of the \<open>wave\<close> module raises \<open>struct.error\<close> when it packs its header, in
  \<open>writeframes\<close> (caught by the inner \<open>try\<close>, which reports the chunk) and again when
  the \<open>with\<close> block closes it (caught by the outer \<open>except\<close>); the output file is left
  with the tag \<open>RIFF\<close> written twice.\<close>

lemma sort_one:
  "sort_wav_files [''temp_audio_chunks/chunk_0.wav''] = Inr [''temp_audio_chunks/chunk_0.wav'']"
  using sort_wav_files_chunks [of "[(''temp_audio_chunks'', ''0'')]"]
  by (simp add: chunk_path_def chunk_number_def digit_string_def is_digit_def decimal_def
      digit_val_def)

lemma write_header_too_long:
  assumes "wparams w = \<lparr>nchannels = Suc 0, sampwidth = 2, framerate = 22050, nframes = 2147483647\<rparr>"
  shows "write_header k w
    = (Some StructError,
       w\<lparr>wfile := fwrite (ascii ''RIFF'') (wfile w), datalength := 4294967294,
         form_length_pos := ftell (fwrite (ascii ''RIFF'') (wfile w))\<rparr>)"
  using assms by (simp add: write_header_def Let_def pack_all_def pack_L_def)

lemma writeframes_too_long:
  assumes "wparams w = \<lparr>nchannels = Suc 0, sampwidth = 2, framerate = 22050, nframes = 2147483647\<rparr>"
    and "\<not> headerwritten w"
  shows "writeframes frames w
    = (Some StructError,
       w\<lparr>wfile := fwrite (ascii ''RIFF'') (wfile w), datalength := 4294967294,
         form_length_pos := ftell (fwrite (ascii ''RIFF'') (wfile w))\<rparr>)"
  using assms
  by (simp add: writeframes_def writeframesraw_def ensure_header_written_def
      write_header_too_long)

lemma wave_close_too_long:
  assumes "wparams w = \<lparr>nchannels = Suc 0, sampwidth = 2, framerate = 22050, nframes = 2147483647\<rparr>"
    and "\<not> headerwritten w"
  shows "wave_close w
    = (Some StructError,
       w\<lparr>wfile := fwrite (ascii ''RIFF'') (wfile w), datalength := 4294967294,
         form_length_pos := ftell (fwrite (ascii ''RIFF'') (wfile w))\<rparr>)"
  using assms
  by (simp add: wave_close_def ensure_header_written_def write_header_too_long)

lemma setparams_too_long:
  "setparams \<lparr>nchannels = Suc 0, sampwidth = 2, framerate = 22050, nframes = 2147483647\<rparr> wave_open_wb
   = (None, wave_open_wb\<lparr>wparams :=
        \<lparr>nchannels = Suc 0, sampwidth = 2, framerate = 22050, nframes = 2147483647\<rparr>\<rparr>)"
  by (simp add: setparams_def wave_open_wb_def)

lemma merge_wav_files_run:
  assumes "glob_chunks e \<noteq> []"
    and "sort_wav_files (glob_chunks e) = Inr fs"
    and "wave_open e (hd fs) = Inr ref"
    and "setparams (getparams ref) wave_open_wb = (None, w)"
    and "foldl (copy_checked (wave_open e) (getparams ref)) (w, []) fs = (w', lines)"
    and "wave_close w' = (r, w'')"
  shows "merge_wav_files e = (Returned (r = None), lines, Holds (content (wfile w'')))"
  using assms by (cases r) (simp_all add: merge_wav_files_def Let_def)

lemma merge_wav_files_header_too_long:
  "merge_wav_files \<lparr>folder_exists = True, glob_chunks = [''temp_audio_chunks/chunk_0.wav''],
       wave_open = (\<lambda>p. Inr (mono16 2147483647 [1, 2])), output_file = None\<rparr>
   = (Returned False, [Corrupt ''temp_audio_chunks/chunk_0.wav'' StructError],
      Holds (ascii ''RIFF'' @ ascii ''RIFF''))"
proof -
  let ?e = "\<lparr>folder_exists = True, glob_chunks = [''temp_audio_chunks/chunk_0.wav''],
       wave_open = (\<lambda>p. Inr (mono16 2147483647 [1, 2])), output_file = None\<rparr>"
  let ?p = "\<lparr>nchannels = Suc 0, sampwidth = 2, framerate = 22050, nframes = 2147483647\<rparr>"
  let ?w = "wave_open_wb\<lparr>wparams := ?p\<rparr>"
  let ?w1 = "?w\<lparr>wfile := fwrite (ascii ''RIFF'') (wfile ?w), datalength := 4294967294,
         form_length_pos := ftell (fwrite (ascii ''RIFF'') (wfile ?w))\<rparr>"
  let ?w2 = "?w1\<lparr>wfile := fwrite (ascii ''RIFF'') (wfile ?w1), datalength := 4294967294,
         form_length_pos := ftell (fwrite (ascii ''RIFF'') (wfile ?w1))\<rparr>"
  have g: "getparams (mono16 2147483647 [1, 2]) = ?p" by (simp add: getparams_mono16)
  have a: "wparams ?w = ?p" "\<not> headerwritten ?w" by (simp_all add: wave_open_wb_def)
  have b: "wparams ?w1 = ?p" "\<not> headerwritten ?w1" by (simp_all add: wave_open_wb_def)
  have c: "copy_checked (\<lambda>p. Inr (mono16 2147483647 [1, 2])) ?p (?w, [])
             ''temp_audio_chunks/chunk_0.wav''
           = (?w1, [Corrupt ''temp_audio_chunks/chunk_0.wav'' StructError])"
    by (simp add: copy_checked_def g writeframes_too_long [OF a] Let_def)
  have "merge_wav_files ?e
          = (Returned (Some StructError = None),
             [Corrupt ''temp_audio_chunks/chunk_0.wav'' StructError],
             Holds (content (wfile ?w2)))"
  proof (rule merge_wav_files_run)
    show "glob_chunks ?e \<noteq> []" by simp
    show "sort_wav_files (glob_chunks ?e) = Inr [''temp_audio_chunks/chunk_0.wav'']"
      using sort_one by simp
    show "wave_open ?e (hd [''temp_audio_chunks/chunk_0.wav'']) = Inr (mono16 2147483647 [1, 2])"
      by simp
    show "setparams (getparams (mono16 2147483647 [1, 2])) wave_open_wb = (None, ?w)"
      by (simp only: g setparams_too_long)
    show "foldl (copy_checked (wave_open ?e) (getparams (mono16 2147483647 [1, 2]))) (?w, [])
            [''temp_audio_chunks/chunk_0.wav'']
          = (?w1, [Corrupt ''temp_audio_chunks/chunk_0.wav'' StructError])"
      using c by (simp only: g foldl.simps env.simps)
    show "wave_close ?w1 = (Some StructError, ?w2)"
      by (rule wave_close_too_long [OF b])
  qed
  moreover have "content (wfile ?w2) = ascii ''RIFF'' @ ascii ''RIFF''"
    by (simp add: wave_open_wb_def fwrite_def open_wb_def ascii_def)
  ultimately show ?thesis by simp
qed

lemma write_header_wide:
  assumes "wparams w = \<lparr>nchannels = 40000, sampwidth = 2, framerate = 22050, nframes = 0\<rparr>"
  shows "write_header 0 w
    = (Some StructError,
       w\<lparr>wfile := fwrite (ascii ''RIFF'') (wfile w), datalength := 0,
         form_length_pos := ftell (fwrite (ascii ''RIFF'') (wfile w))\<rparr>)"
  using assms by (simp add: write_header_def Let_def pack_all_def pack_L_def pack_H_def)

lemma merge_audio_fast_run:
  assumes "folder_exists e" and "glob_chunks e \<noteq> []"
    and "sort_wav_files (glob_chunks e) = Inr fs"
    and "wave_open e (hd fs) = Inr ref"
    and "setparams (getparams ref) wave_open_wb = (None, w)"
    and "foldl (copy_unchecked (wave_open e)) (w, []) fs = (w', names)"
    and "wave_close w' = (r, w'')"
  shows "merge_audio_fast e
           = (case r of None \<Rightarrow> Merged names | Some x \<Rightarrow> MergeFailed x,
              Holds (content (wfile w'')))"
  using assms by (cases r) (simp_all add: merge_audio_fast_def Let_def for_batches_foldl)

lemma merge_audio_fast_wide:
  "merge_audio_fast \<lparr>folder_exists = True, glob_chunks = [''temp_audio_chunks/chunk_0.wav''],
       wave_open = (\<lambda>p. Inr \<lparr>nchannels = 40000, sampwidth = 2, framerate = 22050,
                               nframes = 0, pcm = []\<rparr>), output_file = None\<rparr>
   = (MergeFailed StructError, Holds (ascii ''RIFF'' @ ascii ''RIFF''))"
proof -
  let ?r = "\<lparr>nchannels = 40000, sampwidth = 2, framerate = 22050, nframes = 0, pcm = []\<rparr>"
  let ?e = "\<lparr>folder_exists = True, glob_chunks = [''temp_audio_chunks/chunk_0.wav''],
       wave_open = (\<lambda>p. Inr ?r), output_file = None\<rparr>"
  let ?p = "\<lparr>nchannels = 40000, sampwidth = 2, framerate = 22050, nframes = 0\<rparr>"
  let ?w = "wave_open_wb\<lparr>wparams := ?p\<rparr>"
  let ?w1 = "?w\<lparr>wfile := fwrite (ascii ''RIFF'') (wfile ?w), datalength := 0,
         form_length_pos := ftell (fwrite (ascii ''RIFF'') (wfile ?w))\<rparr>"
  let ?w2 = "?w1\<lparr>wfile := fwrite (ascii ''RIFF'') (wfile ?w1), datalength := 0,
         form_length_pos := ftell (fwrite (ascii ''RIFF'') (wfile ?w1))\<rparr>"
  have g: "getparams ?r = ?p" by (simp add: getparams_def wave_params.truncate_def)
  have a: "wparams ?w = ?p" "\<not> headerwritten ?w" by (simp_all add: wave_open_wb_def)
  have b: "wparams ?w1 = ?p" "\<not> headerwritten ?w1" by (simp_all add: wave_open_wb_def)
  have f: "readframes ?r (getnframes ?r) = []" by (simp add: readframes_def)
  have c: "copy_unchecked (\<lambda>p. Inr ?r) (?w, []) ''temp_audio_chunks/chunk_0.wav''
           = (?w1, [''chunk_0.wav''])"
    using a by (simp add: copy_unchecked_def f writeframes_def writeframesraw_def
        ensure_header_written_def write_header_wide basename_def Let_def)
  have "merge_audio_fast ?e
          = (case Some StructError of None \<Rightarrow> Merged [''chunk_0.wav''] | Some x \<Rightarrow> MergeFailed x,
             Holds (content (wfile ?w2)))"
  proof (rule merge_audio_fast_run)
    show "folder_exists ?e" "glob_chunks ?e \<noteq> []" by simp_all
    show "sort_wav_files (glob_chunks ?e) = Inr [''temp_audio_chunks/chunk_0.wav'']"
      using sort_one by simp
    show "wave_open ?e (hd [''temp_audio_chunks/chunk_0.wav'']) = Inr ?r" by simp
    show "setparams (getparams ?r) wave_open_wb = (None, ?w)"
      by (simp add: g setparams_def wave_open_wb_def)
    show "foldl (copy_unchecked (wave_open ?e)) (?w, []) [''temp_audio_chunks/chunk_0.wav'']
          = (?w1, [''chunk_0.wav''])"
      using c by (simp only: foldl.simps env.simps)
    show "wave_close ?w1 = (Some StructError, ?w2)"
      using b by (simp add: wave_close_def ensure_header_written_def write_header_wide)
  qed
  moreover have "content (wfile ?w2) = ascii ''RIFF'' @ ascii ''RIFF''"
    by (simp add: wave_open_wb_def fwrite_def open_wb_def ascii_def)
  ultimately show ?thesis by simp
qed

section \<open>Stripping and splitting\<close>

lemma length_strip_by: "length (strip_by sp s) \<le> length s"
proof -
  have "length (dropWhile sp (rev (dropWhile sp s))) \<le> length (rev (dropWhile sp s))"
    by (rule length_dropWhile_le)
  also have "\<dots> \<le> length s" by (simp add: length_dropWhile_le)
  finally show ?thesis by (simp add: strip_by_def)
qed

lemma filter_dropWhile:
  "(\<And>x. sp x \<Longrightarrow> \<not> keep x) \<Longrightarrow> filter keep (dropWhile sp s) = filter keep s"
  by (induction s) auto

lemma filter_strip_by:
  assumes "\<And>x. sp x \<Longrightarrow> \<not> keep x"
  shows "filter keep (strip_by sp s) = filter keep s"
proof -
  have "filter keep (rev (dropWhile sp (rev (dropWhile sp s))))
          = rev (filter keep (dropWhile sp (rev (dropWhile sp s))))"
    by (simp add: rev_filter)
  also have "\<dots> = rev (filter keep (rev (dropWhile sp s)))"
    using assms by (simp add: filter_dropWhile)
  also have "\<dots> = filter keep (dropWhile sp s)" by (simp add: rev_filter)
  also have "\<dots> = filter keep s" using assms by (simp add: filter_dropWhile)
  finally show ?thesis by (simp add: strip_by_def)
qed

lemma set_strip_by: "set (strip_by sp s) \<subseteq> set s"
proof -
  have "set (dropWhile sp (rev (dropWhile sp s))) \<subseteq> set (rev (dropWhile sp s))"
    by (rule set_dropWhileD [THEN subsetI])
  also have "\<dots> \<subseteq> set s" using set_dropWhileD [of _ sp s] by auto
  finally show ?thesis by (simp add: strip_by_def)
qed

lemma strip_by_ends:
  assumes "strip_by sp s \<noteq> []"
  shows "\<not> sp (hd (strip_by sp s))" and "\<not> sp (last (strip_by sp s))"
proof -
  let ?t = "dropWhile sp s"
  let ?r = "dropWhile sp (rev ?t)"
  from assms have r: "?r \<noteq> []" by (simp add: strip_by_def)
  then have "\<not> sp (hd ?r)" by (rule hd_dropWhile)
  then show "\<not> sp (last (strip_by sp s))" using r by (simp add: strip_by_def last_rev)
  have t: "?t \<noteq> []"
  proof
    assume "?t = []"
    then have "?r = []" by (simp only: rev.simps dropWhile.simps)
    with r show False by (simp only:) simp
  qed
  then have h: "\<not> sp (hd ?t)" by (rule hd_dropWhile)
  obtain ys where ys: "rev ?t = takeWhile sp (rev ?t) @ ?r" by simp
  have "last ?r = last (rev ?t)"
    using r takeWhile_dropWhile_id [of sp "rev ?t"] by (metis last_appendR)
  then have "hd (rev ?r) = hd ?t" using r t by (simp add: hd_rev last_rev)
  with h show "\<not> sp (hd (strip_by sp s))" by (simp add: strip_by_def)
qed

lemma strip_by_snoc_space:
  assumes "sp c"
  shows "strip_by sp (xs @ [c]) = strip_by sp xs"
proof (cases "\<forall>x\<in>set xs. sp x")
  case True
  then have "\<forall>x\<in>set (xs @ [c]). sp x" using assms by simp
  then have "dropWhile sp (xs @ [c]) = []" by (simp only: dropWhile_eq_Nil_conv)
  moreover have "dropWhile sp xs = []" using True by (simp only: dropWhile_eq_Nil_conv)
  ultimately show ?thesis by (simp only: strip_by_def)
next
  case False
  then have "dropWhile sp (xs @ [c]) = dropWhile sp xs @ [c]"
    by (simp add: dropWhile_append1) (metis dropWhile_append1)
  then show ?thesis using assms by (simp add: strip_by_def)
qed

lemma split_on_pieces: "p \<in> set (split_on P xs) \<Longrightarrow> x \<in> set p \<Longrightarrow> \<not> P x"
proof (induction xs arbitrary: p)
  case Nil
  then show ?case by simp
next
  case (Cons a xs)
  show ?case
  proof (cases "P a")
    case True
    with Cons show ?thesis by auto
  next
    case False
    have ne: "split_on P xs \<noteq> []" by (cases xs) (simp_all add: Let_def)
    from False Cons.prems(1) have "p = a # hd (split_on P xs) \<or> p \<in> set (tl (split_on P xs))"
      by (simp add: Let_def)
    then show ?thesis
    proof
      assume "p = a # hd (split_on P xs)"
      with Cons.prems(2) have "x = a \<or> x \<in> set (hd (split_on P xs))" by simp
      then show ?thesis using False Cons.IH [of "hd (split_on P xs)"] ne by auto
    next
      assume "p \<in> set (tl (split_on P xs))"
      then have "p \<in> set (split_on P xs)" using ne by (meson list.set_sel(2))
      then show ?thesis using Cons.IH Cons.prems(2) by blast
    qed
  qed
qed

lemma split_on_nonempty: "split_on P xs \<noteq> []"
  by (cases xs) (simp_all add: Let_def)

lemma filter_concat_split_on:
  assumes "\<And>x. P x \<Longrightarrow> \<not> keep x"
  shows "filter keep (concat (split_on P xs)) = filter keep xs"
proof (induction xs)
  case Nil
  show ?case by simp
next
  case (Cons a xs)
  obtain y ys where r: "split_on P xs = y # ys" using split_on_nonempty [of P xs] by (cases "split_on P xs") auto
  show ?case using Cons assms r by (auto simp: Let_def)
qed

lemma split_nlnl_nonempty: "split_nlnl s \<noteq> []"
  by (induction s rule: split_nlnl.induct) (simp_all add: Let_def)

lemma filter_concat_split_nlnl:
  assumes "\<not> keep newline"
  shows "filter keep (concat (split_nlnl s)) = filter keep s"
proof (induction s rule: split_nlnl.induct)
  case (1 a b rest)
  show ?case
  proof (cases "a = newline \<and> b = newline")
    case True
    with 1 assms show ?thesis by simp
  next
    case False
    obtain y ys where r: "split_nlnl (b # rest) = y # ys"
      using split_nlnl_nonempty [of "b # rest"] by (cases "split_nlnl (b # rest)") auto
    from False 1(2) r have "filter keep (y @ concat ys) = filter keep (b # rest)" by simp
    with False r show ?thesis by (auto simp: Let_def)
  qed
qed simp_all

section \<open>The content the chunkers keep\<close>

lemma content_of_Nil [simp]: "content_of [] = []"
  by (simp add: content_of_def)

lemma content_of_append [simp]: "content_of (a @ b) = content_of a @ content_of b"
  by (simp add: content_of_def)

lemma content_of_strip [simp]: "content_of (strip s) = content_of s"
  unfolding content_of_def strip_def by (rule filter_strip_by) simp

lemma content_of_full_stop [simp]: "content_of [full_stop] = []"
  by (simp add: content_of_def full_stop_def is_terminator_def)

lemma content_of_newline [simp]: "content_of [newline] = []"
  by (simp add: content_of_def newline_def is_space_def)

lemma content_of_sentences: "content_of (concat (split_on is_terminator s)) = content_of s"
  unfolding content_of_def by (rule filter_concat_split_on) simp

lemma content_of_paragraphs: "content_of (concat (split_nlnl s)) = content_of s"
  unfolding content_of_def by (rule filter_concat_split_nlnl) (simp add: newline_def is_space_def)

lemma content_of_concat_snoc:
  "content_of (concat (chunks @ [c])) = content_of (concat chunks) @ content_of c"
  by simp

lemma content_of_flush: "content_of (concat (flush chunks cur)) = kept (chunks, cur)"
  by (simp add: flush_def kept_def)

lemma kept_add_sentence: "kept (add_sentence m st s) = kept st @ content_of s"
proof (cases st)
  case (Pair chunks cur)
  have e: "strip s = [] \<Longrightarrow> content_of s = []"
    using content_of_strip [of s] by (simp del: content_of_strip)
  show ?thesis
    using e content_of_flush [of chunks cur]
    by (simp add: Pair Let_def) (simp add: kept_def)
qed

lemma kept_smart_sentence: "kept (smart_sentence m st s) = kept st @ content_of s"
proof (cases st)
  case (Pair chunks cur)
  have e: "strip s = [] \<Longrightarrow> content_of s = []"
    using content_of_strip [of s] by (simp del: content_of_strip)
  show ?thesis
    using e content_of_flush [of chunks cur]
    by (simp add: Pair Let_def) (simp add: kept_def)
qed

lemma kept_foldl:
  assumes "\<And>st s. kept (step st s) = kept st @ content_of s"
  shows "kept (foldl step st xs) = kept st @ content_of (concat xs)"
  by (induction xs arbitrary: st) (simp_all add: assms)

lemma kept_smart_paragraph: "kept (smart_paragraph m st p) = kept st @ content_of p"
proof (cases st)
  case (Pair chunks cur)
  have e: "strip p = [] \<Longrightarrow> content_of p = []"
    using content_of_strip [of p] by (simp del: content_of_strip)
  have l: "kept (foldl (smart_sentence m) (chunks, cur) (split_on is_terminator (strip p)))
            = kept (chunks, cur) @ content_of p"
    using kept_foldl [of "smart_sentence m", OF kept_smart_sentence]
    by (simp add: content_of_sentences)
  show ?thesis
    using e l content_of_flush [of chunks cur]
    by (simp add: Pair Let_def) (simp add: kept_def)
qed

section \<open>The invariant of the chunking loops\<close>

lemma foldl_invariant:
  assumes "\<And>st x. x \<in> set xs \<Longrightarrow> I st \<Longrightarrow> I (step st x)" and "I st"
  shows "I (foldl step st xs)"
  using assms by (induction xs arbitrary: st) simp_all

lemma length_strip: "length (strip s) \<le> length s"
  by (simp add: strip_def length_strip_by)

lemma good_short: "int (length c) \<le> m \<Longrightarrow> good S m (strip c)"
  using length_strip [of c] by (simp add: good_def)

lemma full_stop_not_space: "\<not> is_space full_stop"
  by (simp add: is_space_def full_stop_def)

lemma strip_sentence:
  assumes "strip s \<noteq> []"
  shows "strip (strip s @ [full_stop]) = strip s @ [full_stop]"
proof -
  have "\<not> is_space (hd (strip s))" using assms strip_by_ends(1) [of is_space s] by (simp add: strip_def)
  then show ?thesis
    unfolding strip_def [of "strip s @ [full_stop]"]
    using assms by (intro strip_by_id) (simp_all add: full_stop_not_space)
qed

lemma good_sentence: "s \<in> S \<Longrightarrow> strip s \<noteq> [] \<Longrightarrow> good S m (strip (strip s @ [full_stop]))"
  by (auto simp: strip_sentence good_def)

lemma inv_flush: "inv S m (chunks, cur) \<Longrightarrow> \<forall>u\<in>set (flush chunks cur). good S m u"
  by (auto simp: inv_def flush_def)

lemma add_sentence_cases:
  "add_sentence m (chunks, cur) s =
     (if strip s = [] then (chunks, cur)
      else if int (length cur) + int (length (strip s)) < m
           then (chunks, cur @ strip s @ [full_stop])
           else (flush chunks cur, strip s @ [full_stop]))"
  by (simp add: Let_def)

lemma inv_add_sentence:
  assumes "inv S m st" and "s \<in> S"
  shows "inv S m (add_sentence m st s)"
proof (cases st)
  case (Pair chunks cur)
  from assms(1) Pair have i: "inv S m (chunks, cur)" by simp
  show ?thesis
  proof (cases "strip s = []")
    case True
    then have "add_sentence m (chunks, cur) s = (chunks, cur)" by (simp add: add_sentence_cases del: add_sentence.simps)
    with i Pair show ?thesis by simp
  next
    case False
    show ?thesis
    proof (cases "int (length cur) + int (length (strip s)) < m")
      case True
      then have "int (length (cur @ strip s @ [full_stop])) \<le> m" by simp
      then have g: "good S m (strip (cur @ strip s @ [full_stop]))" by (rule good_short)
      have "add_sentence m (chunks, cur) s = (chunks, cur @ strip s @ [full_stop])"
        using False True by (simp add: add_sentence_cases del: add_sentence.simps)
      with i g Pair show ?thesis by (simp add: inv_def)
    next
      case f: False
      have g: "good S m (strip (strip s @ [full_stop]))" using assms(2) False by (rule good_sentence)
      have "add_sentence m (chunks, cur) s = (flush chunks cur, strip s @ [full_stop])"
        using False f by (simp add: add_sentence_cases del: add_sentence.simps)
      with inv_flush [OF i] g Pair show ?thesis by (simp add: inv_def)
    qed
  qed
qed

lemma last_strip_no_terminator:
  assumes "\<forall>c\<in>set s. \<not> is_terminator c" and "strip s \<noteq> []"
  shows "\<not> is_terminator (last (strip s))"
proof -
  have "last (strip s) \<in> set (strip s)" using assms(2) by simp
  then have "last (strip s) \<in> set s" using set_strip_by [of is_space s] by (auto simp: strip_def)
  with assms(1) show ?thesis by blast
qed

lemma smart_sentence_cases:
  assumes "\<forall>c\<in>set s. \<not> is_terminator c"
  shows "smart_sentence m (chunks, cur) s =
     (if strip s = [] then (chunks, cur)
      else if int (length cur) + int (length (strip s @ [full_stop])) < m
           then (chunks, cur @ strip s @ [full_stop])
           else (flush chunks cur, strip s @ [full_stop]))"
proof (cases "strip s = []")
  case True
  then show ?thesis by (simp add: Let_def)
next
  case False
  with last_strip_no_terminator [OF assms False] show ?thesis by (simp add: Let_def)
qed

lemma inv_smart_sentence:
  assumes "inv S m st" and "s \<in> S" and "\<forall>c\<in>set s. \<not> is_terminator c"
  shows "inv S m (smart_sentence m st s)"
proof (cases st)
  case (Pair chunks cur)
  from assms(1) Pair have i: "inv S m (chunks, cur)" by simp
  note sc = smart_sentence_cases [OF assms(3), of m chunks cur]
  show ?thesis
  proof (cases "strip s = []")
    case True
    then have "smart_sentence m (chunks, cur) s = (chunks, cur)" by (simp add: sc del: smart_sentence.simps)
    with i Pair show ?thesis by simp
  next
    case False
    show ?thesis
    proof (cases "int (length cur) + int (length (strip s @ [full_stop])) < m")
      case True
      then have "int (length (cur @ strip s @ [full_stop])) \<le> m" by simp
      then have g: "good S m (strip (cur @ strip s @ [full_stop]))" by (rule good_short)
      have "smart_sentence m (chunks, cur) s = (chunks, cur @ strip s @ [full_stop])"
        using False True by (simp add: sc del: smart_sentence.simps)
      with i g Pair show ?thesis by (simp add: inv_def)
    next
      case f: False
      have g: "good S m (strip (strip s @ [full_stop]))" using assms(2) False by (rule good_sentence)
      have "smart_sentence m (chunks, cur) s = (flush chunks cur, strip s @ [full_stop])"
        using False f by (simp add: sc del: smart_sentence.simps)
      with inv_flush [OF i] g Pair show ?thesis by (simp add: inv_def)
    qed
  qed
qed

lemma strip_snoc_newline: "strip (p @ [newline]) = strip p"
  unfolding strip_def by (rule strip_by_snoc_space) (simp add: newline_def is_space_def)

lemma smart_paragraph_cases:
  "smart_paragraph m (chunks, cur) p =
     (if strip p = [] then (chunks, cur)
      else if m < int (length (strip p))
           then foldl (smart_sentence m) (chunks, cur) (split_on is_terminator (strip p))
           else if int (length cur) + int (length (strip p)) < m
                then (chunks, cur @ strip p @ [newline])
                else (flush chunks cur, strip p @ [newline]))"
  by (simp add: Let_def)

lemma inv_smart_paragraph:
  assumes "inv S m st"
    and "m < int (length (strip p)) \<Longrightarrow> set (split_on is_terminator (strip p)) \<subseteq> S"
  shows "inv S m (smart_paragraph m st p)"
proof (cases st)
  case (Pair chunks cur)
  from assms(1) Pair have i: "inv S m (chunks, cur)" by simp
  note pc = smart_paragraph_cases [of m chunks cur p]
  show ?thesis
  proof (cases "strip p = []")
    case True
    then have "smart_paragraph m (chunks, cur) p = (chunks, cur)" by (simp add: pc del: smart_paragraph.simps)
    with i Pair show ?thesis by simp
  next
    case False
    show ?thesis
    proof (cases "m < int (length (strip p))")
      case True
      have l: "inv S m (foldl (smart_sentence m) (chunks, cur) (split_on is_terminator (strip p)))"
      proof (rule foldl_invariant)
        show "inv S m (chunks, cur)" by (rule i)
      next
        fix st x assume x: "x \<in> set (split_on is_terminator (strip p))" and j: "inv S m st"
        have "x \<in> S" using assms(2) True x by blast
        moreover have "\<forall>c\<in>set x. \<not> is_terminator c" using split_on_pieces [OF x] by blast
        ultimately show "inv S m (smart_sentence m st x)" using j by (intro inv_smart_sentence)
      qed
      have "smart_paragraph m (chunks, cur) p
              = foldl (smart_sentence m) (chunks, cur) (split_on is_terminator (strip p))"
        using False True by (simp add: pc del: smart_paragraph.simps)
      with l Pair show ?thesis by simp
    next
      case big: False
      show ?thesis
      proof (cases "int (length cur) + int (length (strip p)) < m")
        case True
        then have "int (length (cur @ strip p @ [newline])) \<le> m" by simp
        then have g: "good S m (strip (cur @ strip p @ [newline]))" by (rule good_short)
        have "smart_paragraph m (chunks, cur) p = (chunks, cur @ strip p @ [newline])"
          using False big True by (simp add: pc del: smart_paragraph.simps)
        with i g Pair show ?thesis by (simp add: inv_def)
      next
        case f: False
        have "int (length (strip p)) \<le> m" using big by simp
        then have "good S m (strip (strip p))" by (rule good_short)
        then have g: "good S m (strip (strip p @ [newline]))"
          by (simp only: strip_snoc_newline)
        have "smart_paragraph m (chunks, cur) p = (flush chunks cur, strip p @ [newline])"
          using False big f by (simp add: pc del: smart_paragraph.simps)
        with inv_flush [OF i] g Pair show ?thesis by (simp add: inv_def)
      qed
    qed
  qed
qed

section \<open>Fragments longer than the limit\<close>

lemma oversized_unit:
  "strip s \<noteq> [] \<Longrightarrow> m \<le> int (length (strip s)) \<Longrightarrow> oversized m (strip s @ [full_stop])"
  by (simp add: oversized_def strip_sentence)

lemma held_flush: "oversized m u \<Longrightarrow> held u (chunks, cur) \<Longrightarrow> u \<in> set (flush chunks cur)"
  by (auto simp: held_def oversized_def flush_def)

lemma held_after_flush:
  "oversized m u \<Longrightarrow> held u (chunks, cur) \<Longrightarrow> held u (flush chunks cur, new)"
  using held_flush [of m u chunks cur] by (simp add: held_def)

lemma held_appended:
  "oversized m u \<Longrightarrow> held u (chunks, cur) \<Longrightarrow> int (length cur) + k < m \<Longrightarrow> 0 \<le> k
   \<Longrightarrow> held u (chunks, cur @ extra)"
  by (auto simp: held_def oversized_def)

lemma held_add_sentence:
  assumes "oversized m u" and "held u st"
  shows "held u (add_sentence m st s)"
proof (cases st)
  case (Pair chunks cur)
  with assms(2) have h: "held u (chunks, cur)" by simp
  show ?thesis
    using held_after_flush [OF assms(1) h] held_appended [OF assms(1) h, of "int (length (strip s))"] h
    by (simp add: Pair add_sentence_cases del: add_sentence.simps)
qed

lemma emit_add_sentence:
  assumes "strip s \<noteq> []" and "m \<le> int (length (strip s))"
  shows "held (strip s @ [full_stop]) (add_sentence m st s)"
proof (cases st)
  case (Pair chunks cur)
  show ?thesis
    using assms by (simp add: Pair add_sentence_cases held_def del: add_sentence.simps)
qed

lemma held_smart_sentence:
  assumes "oversized m u" and "held u st" and "\<forall>c\<in>set s. \<not> is_terminator c"
  shows "held u (smart_sentence m st s)"
proof (cases st)
  case (Pair chunks cur)
  with assms(2) have h: "held u (chunks, cur)" by simp
  show ?thesis
    using held_after_flush [OF assms(1) h]
      held_appended [OF assms(1) h, of "int (length (strip s @ [full_stop]))"] h
    by (simp add: Pair smart_sentence_cases [OF assms(3)] del: smart_sentence.simps)
qed

lemma emit_smart_sentence:
  assumes "strip s \<noteq> []" and "m \<le> int (length (strip s))" and "\<forall>c\<in>set s. \<not> is_terminator c"
  shows "held (strip s @ [full_stop]) (smart_sentence m st s)"
proof (cases st)
  case (Pair chunks cur)
  show ?thesis
    using assms(1,2)
    by (simp add: Pair smart_sentence_cases [OF assms(3)] held_def del: smart_sentence.simps)
qed

lemma emit_foldl:
  assumes "s \<in> set xs"
    and "\<And>st. held u (step st s)"
    and "\<And>st x. x \<in> set xs \<Longrightarrow> held u st \<Longrightarrow> held u (step st x)"
  shows "held u (foldl step st xs)"
proof -
  from assms(1) obtain ys zs where xs: "xs = ys @ s # zs" by (meson split_list)
  have "held u (foldl step (step (foldl step st ys) s) zs)"
  proof (rule foldl_invariant)
    show "held u (step (foldl step st ys) s)" by (rule assms(2))
  next
    fix st' x assume "x \<in> set zs" and "held u st'"
    then show "held u (step st' x)" using assms(3) [of x st'] xs by simp
  qed
  then show ?thesis by (simp add: xs)
qed

lemma held_smart_paragraph:
  assumes "oversized m u" and "held u st"
  shows "held u (smart_paragraph m st p)"
proof (cases st)
  case (Pair chunks cur)
  with assms(2) have h: "held u (chunks, cur)" by simp
  have l: "held u (foldl (smart_sentence m) (chunks, cur) (split_on is_terminator (strip p)))"
  proof (rule foldl_invariant)
    show "held u (chunks, cur)" by (rule h)
  next
    fix st' x assume x: "x \<in> set (split_on is_terminator (strip p))" and j: "held u st'"
    have "\<forall>c\<in>set x. \<not> is_terminator c" using split_on_pieces [OF x] by blast
    with assms(1) j show "held u (smart_sentence m st' x)" by (rule held_smart_sentence)
  qed
  show ?thesis
    using held_after_flush [OF assms(1) h] l
      held_appended [OF assms(1) h, of "int (length (strip p))"] h
    by (simp add: Pair smart_paragraph_cases del: smart_paragraph.simps)
qed

lemma emit_smart_paragraph:
  assumes "m < int (length (strip p))" and "s \<in> set (split_on is_terminator (strip p))"
    and "strip s \<noteq> []" and "m \<le> int (length (strip s))"
  shows "held (strip s @ [full_stop]) (smart_paragraph m st p)"
proof (cases st)
  case (Pair chunks cur)
  have ne: "strip p \<noteq> []"
  proof
    assume "strip p = []"
    with assms(2) have "s = []" by simp
    with assms(3) show False by (simp add: strip_def strip_by_def)
  qed
  have "held (strip s @ [full_stop])
          (foldl (smart_sentence m) (chunks, cur) (split_on is_terminator (strip p)))"
  proof (rule emit_foldl [OF assms(2)])
    have "\<forall>c\<in>set s. \<not> is_terminator c" using split_on_pieces [OF assms(2)] by blast
    then show "held (strip s @ [full_stop]) (smart_sentence m st' s)" for st'
      using assms(3,4) by (intro emit_smart_sentence)
  next
    fix st' x assume x: "x \<in> set (split_on is_terminator (strip p))"
      and j: "held (strip s @ [full_stop]) st'"
    have "\<forall>c\<in>set x. \<not> is_terminator c" using split_on_pieces [OF x] by blast
    with oversized_unit [OF assms(3,4)] j
    show "held (strip s @ [full_stop]) (smart_sentence m st' x)" by (rule held_smart_sentence)
  qed
  then show ?thesis
    using ne assms(1) by (simp add: Pair smart_paragraph_cases del: smart_paragraph.simps)
qed

lemma oversized_sentences_emitted:
  assumes "s \<in> sentence_fragments text" and "strip s \<noteq> []" and "m \<le> int (length (strip s))"
  shows "strip s @ [full_stop] \<in> set (split_text_into_chunks text m)"
proof -
  let ?u = "strip s @ [full_stop]"
  let ?st = "foldl (add_sentence m) ([], []) (split_on is_terminator text)"
  have o: "oversized m ?u" using assms(2,3) by (rule oversized_unit)
  have "held ?u ?st"
  proof (rule emit_foldl)
    show "s \<in> set (split_on is_terminator text)" using assms(1) by (simp add: sentence_fragments_def)
    show "held ?u (add_sentence m st' s)" for st' using assms(2,3) by (rule emit_add_sentence)
    show "held ?u (add_sentence m st' x)" if "held ?u st'" for st' x
      using o that by (rule held_add_sentence)
  qed
  then have "held ?u (fst ?st, snd ?st)" by simp
  with o have "?u \<in> set (flush (fst ?st) (snd ?st))" by (rule held_flush)
  then show ?thesis by (simp add: split_text_into_chunks_def Let_def)
qed

lemma oversized_smart_sentences_emitted:
  assumes "s \<in> long_paragraph_fragments text m" and "strip s \<noteq> []"
    and "m \<le> int (length (strip s))"
  shows "strip s @ [full_stop] \<in> set (split_text_smart text m)"
proof -
  let ?u = "strip s @ [full_stop]"
  let ?st = "foldl (smart_paragraph m) ([], []) (split_nlnl text)"
  have o: "oversized m ?u" using assms(2,3) by (rule oversized_unit)
  from assms(1) obtain p where p: "p \<in> set (split_nlnl text)" "m < int (length (strip p))"
      "s \<in> set (split_on is_terminator (strip p))"
    by (auto simp: long_paragraph_fragments_def split: if_splits)
  have "held ?u ?st"
  proof (rule emit_foldl)
    show "p \<in> set (split_nlnl text)" by (rule p(1))
    show "held ?u (smart_paragraph m st' p)" for st'
      using p(2,3) assms(2,3) by (rule emit_smart_paragraph)
    show "held ?u (smart_paragraph m st' x)" if "held ?u st'" for st' x
      using o that by (rule held_smart_paragraph)
  qed
  then have "held ?u (fst ?st, snd ?st)" by simp
  with o have "?u \<in> set (flush (fst ?st) (snd ?st))" by (rule held_flush)
  then show ?thesis by (simp add: split_text_smart_def Let_def)
qed

section \<open>The pieces the chunkers join\<close>

lemma without_newlines_append [simp]:
  "without_newlines (a @ b) = without_newlines a @ without_newlines b"
  by (simp add: without_newlines_def)

lemma without_newlines_Nil [simp]: "without_newlines [] = []"
  by (simp add: without_newlines_def)

lemma without_newlines_newline [simp]: "without_newlines [newline] = []"
  by (simp add: without_newlines_def)

lemma strip_id: "b \<noteq> [] \<Longrightarrow> \<not> is_space (hd b) \<Longrightarrow> \<not> is_space (last b) \<Longrightarrow> strip b = b"
  unfolding strip_def by (rule strip_by_id)

lemma tidy_strip:
  assumes "tidy cur"
  shows "without_newlines (strip cur) = without_newlines cur"
proof (cases "cur = []")
  case True
  then show ?thesis by (simp add: strip_def strip_by_def)
next
  case False
  with assms obtain b where b: "b \<noteq> []" "\<not> is_space (hd b)" "\<not> is_space (last b)"
    and c: "cur = b \<or> cur = b @ [newline]"
    by (auto simp: tidy_def)
  from c show ?thesis
  proof
    assume "cur = b"
    with b show ?thesis by (simp add: strip_id)
  next
    assume "cur = b @ [newline]"
    with b show ?thesis by (simp add: strip_snoc_newline strip_id)
  qed
qed

lemma joined_flush:
  "tidy cur \<Longrightarrow> without_newlines (concat (flush chunks cur)) = joined (chunks, cur)"
  by (simp add: flush_def joined_def tidy_strip)

lemma strip_ends:
  assumes "strip s \<noteq> []"
  shows "\<not> is_space (hd (strip s))" and "\<not> is_space (last (strip s))"
  using assms strip_by_ends [of is_space s] by (simp_all add: strip_def)

lemma tidy_hd: "tidy cur \<Longrightarrow> cur \<noteq> [] \<Longrightarrow> \<not> is_space (hd cur)"
  by (auto simp: tidy_def)

lemma hd_append_stripped:
  assumes "tidy cur" and "strip s \<noteq> []"
  shows "\<not> is_space (hd (cur @ strip s @ rest))"
proof (cases "cur = []")
  case True
  with strip_ends(1) [OF assms(2)] assms(2) show ?thesis by simp
next
  case False
  with tidy_hd [OF assms(1)] show ?thesis by simp
qed

lemma tidy_append_terminated:
  assumes "tidy cur" and "strip s \<noteq> []"
  shows "tidy (cur @ strip s @ [full_stop])"
proof -
  have "\<not> is_space (hd (cur @ strip s @ [full_stop]))" using assms by (rule hd_append_stripped)
  moreover have "\<not> is_space (last (cur @ strip s @ [full_stop]))"
    by (simp add: full_stop_not_space)
  ultimately show ?thesis unfolding tidy_def by (intro disjI2 exI [of _ "cur @ strip s @ [full_stop]"]) simp
qed

lemma tidy_append_paragraph:
  assumes "tidy cur" and "strip p \<noteq> []"
  shows "tidy (cur @ strip p @ [newline])"
proof -
  have "\<not> is_space (hd (cur @ strip p @ []))" using assms by (rule hd_append_stripped)
  moreover have "\<not> is_space (last (cur @ strip p))"
    using assms(2) strip_ends(2) [OF assms(2)] by simp
  ultimately show ?thesis
    unfolding tidy_def using assms(2) by (intro disjI2 exI [of _ "cur @ strip p"]) simp
qed

lemma tidy_Nil: "tidy []"
  by (simp add: tidy_def)

lemma joined_foldl:
  assumes "\<And>st x. x \<in> set xs \<Longrightarrow> tidy (snd st) \<Longrightarrow>
             tidy (snd (step st x)) \<and> joined (step st x) = joined st @ without_newlines (f x)"
    and "tidy (snd st)"
  shows "tidy (snd (foldl step st xs))
       \<and> joined (foldl step st xs) = joined st @ without_newlines (concat (map f xs))"
  using assms
proof (induction xs arbitrary: st)
  case Nil
  then show ?case by simp
next
  case (Cons x xs)
  have s: "tidy (snd (step st x)) \<and> joined (step st x) = joined st @ without_newlines (f x)"
    using Cons.prems by simp
  have "tidy (snd (foldl step (step st x) xs))
       \<and> joined (foldl step (step st x) xs)
           = joined (step st x) @ without_newlines (concat (map f xs))"
    using Cons.prems(1) s by (intro Cons.IH) simp_all
  with s show ?case by simp
qed

lemma joined_add_sentence:
  assumes "tidy (snd st)"
  shows "tidy (snd (add_sentence m st s))
       \<and> joined (add_sentence m st s) = joined st @ without_newlines (terminated s)"
proof (cases st)
  case (Pair chunks cur)
  with assms have t: "tidy cur" by simp
  note ac = add_sentence_cases [of m chunks cur s]
  show ?thesis
  proof (cases "strip s = []")
    case True
    then have "add_sentence m (chunks, cur) s = (chunks, cur)"
      by (simp add: ac del: add_sentence.simps)
    with t Pair True show ?thesis by (simp add: terminated_def)
  next
    case False
    show ?thesis
    proof (cases "int (length cur) + int (length (strip s)) < m")
      case True
      have "add_sentence m (chunks, cur) s = (chunks, cur @ strip s @ [full_stop])"
        using False True by (simp add: ac del: add_sentence.simps)
      with tidy_append_terminated [OF t False] Pair False show ?thesis
        by (simp add: terminated_def joined_def)
    next
      case f: False
      have "add_sentence m (chunks, cur) s = (flush chunks cur, strip s @ [full_stop])"
        using False f by (simp add: ac del: add_sentence.simps)
      with tidy_append_terminated [OF tidy_Nil False] joined_flush [OF t, of chunks] Pair False
      show ?thesis by (simp add: terminated_def joined_def)
    qed
  qed
qed

lemma joined_smart_sentence:
  assumes "tidy (snd st)" and "\<forall>c\<in>set s. \<not> is_terminator c"
  shows "tidy (snd (smart_sentence m st s))
       \<and> joined (smart_sentence m st s) = joined st @ without_newlines (terminated s)"
proof (cases st)
  case (Pair chunks cur)
  with assms have t: "tidy cur" by simp
  note sc = smart_sentence_cases [OF assms(2), of m chunks cur]
  show ?thesis
  proof (cases "strip s = []")
    case True
    then have "smart_sentence m (chunks, cur) s = (chunks, cur)"
      by (simp add: sc del: smart_sentence.simps)
    with t Pair True show ?thesis by (simp add: terminated_def)
  next
    case False
    show ?thesis
    proof (cases "int (length cur) + int (length (strip s @ [full_stop])) < m")
      case True
      have "smart_sentence m (chunks, cur) s = (chunks, cur @ strip s @ [full_stop])"
        using False True by (simp add: sc del: smart_sentence.simps)
      with tidy_append_terminated [OF t False] Pair False show ?thesis
        by (simp add: terminated_def joined_def)
    next
      case f: False
      have "smart_sentence m (chunks, cur) s = (flush chunks cur, strip s @ [full_stop])"
        using False f by (simp add: sc del: smart_sentence.simps)
      with tidy_append_terminated [OF tidy_Nil False] joined_flush [OF t, of chunks] Pair False
      show ?thesis by (simp add: terminated_def joined_def)
    qed
  qed
qed

lemma joined_smart_paragraph:
  assumes "tidy (snd st)"
  shows "tidy (snd (smart_paragraph m st p))
       \<and> joined (smart_paragraph m st p) = joined st @ without_newlines (paragraph_pieces m p)"
proof (cases st)
  case (Pair chunks cur)
  with assms have t: "tidy cur" by simp
  note pc = smart_paragraph_cases [of m chunks cur p]
  show ?thesis
  proof (cases "strip p = []")
    case True
    then have "smart_paragraph m (chunks, cur) p = (chunks, cur)"
      by (simp add: pc del: smart_paragraph.simps)
    with t Pair True show ?thesis by (simp add: paragraph_pieces_def)
  next
    case False
    show ?thesis
    proof (cases "m < int (length (strip p))")
      case True
      have l: "tidy (snd (foldl (smart_sentence m) (chunks, cur) (split_on is_terminator (strip p))))
         \<and> joined (foldl (smart_sentence m) (chunks, cur) (split_on is_terminator (strip p)))
             = joined (chunks, cur)
               @ without_newlines (concat (map terminated (split_on is_terminator (strip p))))"
      proof (rule joined_foldl)
        show "tidy (snd (chunks, cur))" using t by simp
      next
        fix st' :: "ustring list \<times> ustring" and x
        assume x: "x \<in> set (split_on is_terminator (strip p))" and j: "tidy (snd st')"
        have "\<forall>c\<in>set x. \<not> is_terminator c" using split_on_pieces [OF x] by blast
        with j show "tidy (snd (smart_sentence m st' x))
          \<and> joined (smart_sentence m st' x) = joined st' @ without_newlines (terminated x)"
          by (rule joined_smart_sentence)
      qed
      have "smart_paragraph m (chunks, cur) p
              = foldl (smart_sentence m) (chunks, cur) (split_on is_terminator (strip p))"
        using False True by (simp add: pc del: smart_paragraph.simps)
      with l Pair False True show ?thesis by (simp add: paragraph_pieces_def)
    next
      case big: False
      show ?thesis
      proof (cases "int (length cur) + int (length (strip p)) < m")
        case True
        have "smart_paragraph m (chunks, cur) p = (chunks, cur @ strip p @ [newline])"
          using False big True by (simp add: pc del: smart_paragraph.simps)
        with tidy_append_paragraph [OF t False] Pair False big show ?thesis
          by (simp add: paragraph_pieces_def joined_def)
      next
        case f: False
        have "smart_paragraph m (chunks, cur) p = (flush chunks cur, strip p @ [newline])"
          using False big f by (simp add: pc del: smart_paragraph.simps)
        with tidy_append_paragraph [OF tidy_Nil False] joined_flush [OF t, of chunks] Pair False big
        show ?thesis by (simp add: paragraph_pieces_def joined_def)
      qed
    qed
  qed
qed

lemma chunkers_join_pieces:
  "without_newlines (concat (split_text_into_chunks text m))
     = without_newlines (concat (map terminated (split_on is_terminator text)))"
  "without_newlines (concat (split_text_smart text m))
     = without_newlines (concat (map (paragraph_pieces m) (split_nlnl text)))"
proof -
  have "tidy (snd (foldl (add_sentence m) ([], []) (split_on is_terminator text)))
      \<and> joined (foldl (add_sentence m) ([], []) (split_on is_terminator text))
         = joined ([], []) @ without_newlines (concat (map terminated (split_on is_terminator text)))"
    by (rule joined_foldl) (simp_all add: joined_add_sentence tidy_Nil)
  then show "without_newlines (concat (split_text_into_chunks text m))
     = without_newlines (concat (map terminated (split_on is_terminator text)))"
    by (simp add: split_text_into_chunks_def Let_def joined_flush) (simp add: joined_def)
  have "tidy (snd (foldl (smart_paragraph m) ([], []) (split_nlnl text)))
      \<and> joined (foldl (smart_paragraph m) ([], []) (split_nlnl text))
         = joined ([], []) @ without_newlines (concat (map (paragraph_pieces m) (split_nlnl text)))"
    by (rule joined_foldl) (simp_all add: joined_smart_paragraph tidy_Nil)
  then show "without_newlines (concat (split_text_smart text m))
     = without_newlines (concat (map (paragraph_pieces m) (split_nlnl text)))"
    by (simp add: split_text_smart_def Let_def joined_flush) (simp add: joined_def)
qed

section \<open>Units are short or whole sentences\<close>

lemma units_short_or_whole:
  "(\<forall>u\<in>set (split_text_into_chunks text max_chunk_size).
      int (length u) \<le> max_chunk_size
      \<or> (\<exists>s\<in>sentence_fragments text. strip s \<noteq> [] \<and> u = strip s @ [full_stop]))
   \<and> (\<forall>u\<in>set (split_text_smart text max_chunk_size).
      int (length u) \<le> max_chunk_size
      \<or> (\<exists>s\<in>long_paragraph_fragments text max_chunk_size.
            strip s \<noteq> [] \<and> u = strip s @ [full_stop]))"
proof
  let ?m = max_chunk_size
  let ?S = "sentence_fragments text"
  have "inv ?S ?m (foldl (add_sentence ?m) ([], []) (split_on is_terminator text))"
  proof (rule foldl_invariant)
    show "inv ?S ?m ([], [])" by (simp add: inv_def)
  next
    fix st s assume "s \<in> set (split_on is_terminator text)" and "inv ?S ?m st"
    then show "inv ?S ?m (add_sentence ?m st s)"
      by (intro inv_add_sentence) (simp_all add: sentence_fragments_def)
  qed
  then have "inv ?S ?m (fst (foldl (add_sentence ?m) ([], []) (split_on is_terminator text)),
                        snd (foldl (add_sentence ?m) ([], []) (split_on is_terminator text)))"
    by simp
  then have "\<forall>u\<in>set (split_text_into_chunks text ?m). good ?S ?m u"
    unfolding split_text_into_chunks_def Let_def by (rule inv_flush)
  then show "\<forall>u\<in>set (split_text_into_chunks text ?m).
      int (length u) \<le> ?m \<or> (\<exists>s\<in>?S. strip s \<noteq> [] \<and> u = strip s @ [full_stop])"
    by (simp add: good_def)
  let ?L = "long_paragraph_fragments text ?m"
  have "inv ?L ?m (foldl (smart_paragraph ?m) ([], []) (split_nlnl text))"
  proof (rule foldl_invariant)
    show "inv ?L ?m ([], [])" by (simp add: inv_def)
  next
    fix st p assume p: "p \<in> set (split_nlnl text)" and i: "inv ?L ?m st"
    have "set (split_on is_terminator (strip p)) \<subseteq> ?L" if "?m < int (length (strip p))"
      using that p by (auto simp: long_paragraph_fragments_def)
    with i show "inv ?L ?m (smart_paragraph ?m st p)" by (intro inv_smart_paragraph)
  qed
  then have "inv ?L ?m (fst (foldl (smart_paragraph ?m) ([], []) (split_nlnl text)),
                        snd (foldl (smart_paragraph ?m) ([], []) (split_nlnl text)))"
    by simp
  then have "\<forall>u\<in>set (split_text_smart text ?m). good ?L ?m u"
    unfolding split_text_smart_def Let_def by (rule inv_flush)
  then show "\<forall>u\<in>set (split_text_smart text ?m).
      int (length u) \<le> ?m \<or> (\<exists>s\<in>?L. strip s \<noteq> [] \<and> u = strip s @ [full_stop])"
    by (simp add: good_def)
qed

section \<open>An example text\<close>

lemma strip_abc: "strip [97, 98, 99] = [97, 98, 99]"
  by (simp add: strip_def strip_by_def is_space_def)

lemma chunks_abc: "split_text_into_chunks [97, 98, 99] 3 = [[97, 98, 99, 12290]]"
  by (simp add: split_text_into_chunks_def is_terminator_def strip_abc Let_def flush_def
      full_stop_def) (simp add: strip_def strip_by_def is_space_def)

section \<open>The claims\<close>

text \<open>
  C1. Frame total and size fields of a merge of same-format chunks. On a folder of two
  readable chunks of the same format (mono, 16 bit, 22050 Hz) with one and with two
  frames, \<open>merge_audio_fixed\<close> writes the first chunk only: the frame total is 1 and not
  3, and the second chunk is reported as a parameter mismatch, because the four entries
  \<open>params[:4]\<close> it compares include the frame count. The two size fields of the header
  hold the sizes of what was written, 38 of 46 bytes and 2 bytes of samples, as they do in
  every completed run (\<open>size_fields_exact\<close>).
\<close>

theorem differing_frame_counts_are_skipped:
  "\<exists>bytes. merge_audio_fixed \<lparr>folder_exists = True,
       glob_chunks = [''temp_audio_chunks/chunk_0.wav'', ''temp_audio_chunks/chunk_1.wav''],
       wave_open = two_chunks, output_file = None\<rparr>
     = (Merged (1, [Mismatch ''chunk_1.wav'']), Some bytes)
   \<and> drop 44 bytes = [1, 2]
   \<and> unpack_le (take 4 (drop 40 bytes)) = 2
   \<and> unpack_le (take 4 (drop 4 bytes)) = 38 \<and> length bytes = 46"
proof -
  let ?p = "\<lparr>nchannels = 1, sampwidth = 2, framerate = 22050, nframes = 1\<rparr>"
  have b: "36 + 2 < (2::nat) ^ 32" by simp
  show ?thesis
    using merge_audio_fixed_completes [OF two_chunks_run] two_chunks_passes two_chunks_data
      two_chunks_lines size_fields_of_header [OF b, of ?p "[1, 2]"]
    by (simp add: getparams_mono16 numeral_2_eq_2 length_riff_header)
qed

text \<open>
  C2. The chunks left out are all reported. Read as stated (in every merge run, every
  chunk that is left out of the output is recorded with a reason), the claim fails: in
  the folder whose first chunk cannot be opened and whose second chunk is readable, both
  tools stop at the first chunk, and the readable chunk is left out with no line for it:
  \<open>merge_wav_files\<close> returns \<open>False\<close> with no chunk reported and no output opened,
  \<open>merge_audio_fixed\<close> ends in its outer \<open>except\<close>, which carries no report.
\<close>

theorem first_unreadable_leaves_no_record:
  "unreadable_first ''temp_audio_chunks/chunk_0.wav'' = Inl WaveError
   \<and> unreadable_first ''temp_audio_chunks/chunk_1.wav'' = Inr (mono16 2 [3, 4, 5, 6])
   \<and> merge_wav_files \<lparr>folder_exists = True,
       glob_chunks = [''temp_audio_chunks/chunk_0.wav'', ''temp_audio_chunks/chunk_1.wav''],
       wave_open = unreadable_first, output_file = None\<rparr>
     = (Returned False, [], NotOpened)
   \<and> fst (merge_audio_fixed \<lparr>folder_exists = True,
       glob_chunks = [''temp_audio_chunks/chunk_0.wav'', ''temp_audio_chunks/chunk_1.wav''],
       wave_open = unreadable_first, output_file = None\<rparr>)
     = MergeFailed WaveError"
  using sort_two
  by (simp add: merge_audio_fixed_def merge_wav_files_def unreadable_first_def)

text \<open>
  C2, as the code has it. In a run of \<open>merge_audio_fixed\<close> that has its reference format
  (the first chunk in catalog order opens) and whose header values and sizes fit their
  fields, the merge completes, and the chunks are split in two: those that pass, whose
  frames make up the output after the 44-byte header and whose frame counts make up the
  total, and those that do not, each with its line in list order: a damaged-file line with
  the exception for a chunk that fails to open or parse, a mismatch line for one whose
  parameters differ. A chunk whose channel count differs from the reference does not
  pass, so it adds nothing to the total and has its mismatch line. In \<open>merge_wav_files\<close>,
  once its writer has taken the reference parameters, every chunk that does not pass has
  its line as well, whatever the writer does with the chunks that pass.
\<close>

theorem skipped_is_exhaustive:
  assumes "folder_exists e" and "glob_chunks e \<noteq> []"
    and "sort_wav_files (glob_chunks e) = Inr fs"
    and "wave_open e (hd fs) = Inr ref"
    and "fits (getparams ref) (length (merged_data (wave_open e) (getparams ref) fs))"
  shows "\<exists>total skips bytes.
      merge_audio_fixed e = (Merged (total, skips), Some bytes)
    \<and> skips = map (skip_line (wave_open e))
                (filter (\<lambda>f. \<not> passes (wave_open e) (getparams ref) f) fs)
    \<and> drop 44 bytes = concat (map (frames_of (wave_open e))
                (filter (passes (wave_open e) (getparams ref)) fs))
    \<and> total = sum_list (map (frame_count (wave_open e))
                (filter (passes (wave_open e) (getparams ref)) fs))
    \<and> (\<forall>f\<in>set fs. \<forall>x. wave_open e f = Inl x \<longrightarrow> Corrupt (basename f) x \<in> set skips)
    \<and> (\<forall>f\<in>set fs. \<forall>w. wave_open e f = Inr w \<longrightarrow> nchannels w \<noteq> nchannels ref \<longrightarrow>
           \<not> passes (wave_open e) (getparams ref) f \<and> Mismatch (basename f) \<in> set skips)
    \<and> (fst (setparams (getparams ref) wave_open_wb) = None \<longrightarrow>
          (\<forall>f\<in>set fs. \<not> passes (wave_open e) (getparams ref) f \<longrightarrow>
              skip_line_path (wave_open e) f \<in> set (fst (snd (merge_wav_files e)))))"
proof -
  let ?skips = "map (skip_line (wave_open e))
                (filter (\<lambda>f. \<not> passes (wave_open e) (getparams ref) f) fs)"
  have a: "Corrupt (basename f) x \<in> set ?skips" if "f \<in> set fs" "wave_open e f = Inl x" for f x
  proof -
    have "\<not> passes (wave_open e) (getparams ref) f" using that(2) by (rule not_passes_Inl)
    with that(1) have "skip_line (wave_open e) f \<in> set ?skips" by simp
    then show ?thesis using that(2) by (simp only: skip_line_Inl)
  qed
  have b: "\<not> passes (wave_open e) (getparams ref) f \<and> Mismatch (basename f) \<in> set ?skips"
    if "f \<in> set fs" "wave_open e f = Inr w" "nchannels w \<noteq> nchannels ref" for f w
  proof -
    have n: "\<not> passes (wave_open e) (getparams ref) f"
      using passes_same_channels [of "wave_open e" "getparams ref" f w] that(2,3)
      by (auto simp: nchannels_getparams)
    with that(1) have "skip_line (wave_open e) f \<in> set ?skips" by simp
    then show ?thesis using that(2) n by (simp only: skip_line_Inr) simp
  qed
  have c: "skip_line_path (wave_open e) f \<in> set (fst (snd (merge_wav_files e)))"
    if "fst (setparams (getparams ref) wave_open_wb) = None" "f \<in> set fs"
      "\<not> passes (wave_open e) (getparams ref) f" for f
    using merge_wav_files_lines [OF assms(2-4) that(1)] copy_checked_loop_reports [OF that(2,3)]
    by simp
  show ?thesis
    using merge_audio_fixed_completes [OF assms] a b c
    by (simp add: length_riff_header merged_data_def)
qed

theorem skipped_is_exhaustive_witness:
  "(\<exists>bytes. merge_audio_fixed \<lparr>folder_exists = True,
       glob_chunks = [''temp_audio_chunks/chunk_0.wav'', ''temp_audio_chunks/chunk_1.wav''],
       wave_open = two_chunks, output_file = None\<rparr>
     = (Merged (1, [Mismatch ''chunk_1.wav'']), Some bytes))
   \<and> Mismatch ''temp_audio_chunks/chunk_1.wav''
       \<in> set (fst (snd (merge_wav_files \<lparr>folder_exists = True,
       glob_chunks = [''temp_audio_chunks/chunk_0.wav'', ''temp_audio_chunks/chunk_1.wav''],
       wave_open = two_chunks, output_file = None\<rparr>)))"
  using skipped_is_exhaustive [OF two_chunks_run] two_chunks_passes two_chunks_lines
  by (auto simp: getparams_mono16 setparams_def wave_open_wb_def skip_line_path_def
      two_chunks_def)

text \<open>
  C3. When the merge fails. Read as stated (a chunk that fails to open never aborts the
  merge, the first chunk included), the claim fails: with an unreadable first chunk and
  a readable second one, \<open>merge_audio_fixed\<close> ends in its outer \<open>except\<close> and writes
  nothing.
\<close>

theorem unreadable_first_aborts:
  "merge_audio_fixed \<lparr>folder_exists = True,
       glob_chunks = [''temp_audio_chunks/chunk_0.wav'', ''temp_audio_chunks/chunk_1.wav''],
       wave_open = unreadable_first, output_file = None\<rparr>
   = (MergeFailed WaveError, None)"
  using sort_two by (simp add: merge_audio_fixed_def unreadable_first_def)

text \<open>
  C3, as the code has it. The reference parameters are read from the first chunk in
  catalog order before the output is opened: if that chunk fails to open or parse, the
  run ends with that exception and the output file is untouched. If it opens (and the
  sizes fit the header fields), the merge completes, and every chunk that fails to open
  or parse has its damaged-file line.
\<close>

theorem first_chunk_decides:
  assumes "folder_exists e" and "glob_chunks e \<noteq> []"
    and "sort_wav_files (glob_chunks e) = Inr fs"
  shows "(\<forall>x. wave_open e (hd fs) = Inl x \<longrightarrow> merge_audio_fixed e = (MergeFailed x, output_file e))
    \<and> (\<forall>ref. wave_open e (hd fs) = Inr ref \<longrightarrow>
           fits (getparams ref) (length (merged_data (wave_open e) (getparams ref) fs)) \<longrightarrow>
           (\<exists>total skips bytes.
               merge_audio_fixed e = (Merged (total, skips), Some bytes)
             \<and> (\<forall>f\<in>set fs. \<forall>x. wave_open e f = Inl x \<longrightarrow>
                    Corrupt (basename f) x \<in> set skips)))"
proof (intro conjI allI impI)
  fix x assume "wave_open e (hd fs) = Inl x"
  with assms show "merge_audio_fixed e = (MergeFailed x, output_file e)"
    by (simp add: merge_audio_fixed_def)
next
  fix ref
  assume r: "wave_open e (hd fs) = Inr ref"
    and f: "fits (getparams ref) (length (merged_data (wave_open e) (getparams ref) fs))"
  let ?skips = "map (skip_line (wave_open e))
                (filter (\<lambda>f. \<not> passes (wave_open e) (getparams ref) f) fs)"
  have "Corrupt (basename f) x \<in> set ?skips" if "f \<in> set fs" "wave_open e f = Inl x" for f x
  proof -
    have "\<not> passes (wave_open e) (getparams ref) f" using that(2) by (rule not_passes_Inl)
    with that(1) have "skip_line (wave_open e) f \<in> set ?skips" by simp
    then show ?thesis using that(2) by (simp only: skip_line_Inl)
  qed
  then show "\<exists>total skips bytes.
               merge_audio_fixed e = (Merged (total, skips), Some bytes)
             \<and> (\<forall>f\<in>set fs. \<forall>x. wave_open e f = Inl x \<longrightarrow>
                    Corrupt (basename f) x \<in> set skips)"
    using merge_audio_fixed_completes [OF assms r f] by simp
qed

theorem first_chunk_decides_witness:
  "\<exists>bytes. merge_audio_fixed \<lparr>folder_exists = True,
       glob_chunks = [''temp_audio_chunks/chunk_0.wav'', ''temp_audio_chunks/chunk_1.wav''],
       wave_open = unreadable_second, output_file = None\<rparr>
     = (Merged (1, [Corrupt ''chunk_1.wav'' OSError]), Some bytes)"
proof -
  from first_chunk_decides [OF unreadable_second_run(1-3)]
  have "\<exists>total skips bytes. merge_audio_fixed \<lparr>folder_exists = True,
       glob_chunks = [''temp_audio_chunks/chunk_0.wav'', ''temp_audio_chunks/chunk_1.wav''],
       wave_open = unreadable_second, output_file = None\<rparr> = (Merged (total, skips), Some bytes)"
    using unreadable_second_run(4,5) by blast
  moreover note merge_audio_fixed_completes [OF unreadable_second_run]
  ultimately show ?thesis
    using unreadable_second_passes unreadable_second_lines by (simp add: getparams_mono16)
qed

text \<open>
  C4. The catalog order is numeric. For chunk files \<open>chunk_<N>.wav\<close> (in any
  directories, \<open>N\<close> a non-empty string of decimal digits, leading zeros allowed), the
  sort of the merge tools succeeds and arranges the files by the number \<open>N\<close>: the
  result is the stable sort by that number, hence a rearrangement of the files found
  with the numbers ascending. On \<open>chunk_0\<close>, \<open>chunk_10\<close>, \<open>chunk_2\<close> it gives
  \<open>chunk_0\<close>, \<open>chunk_2\<close>, \<open>chunk_10\<close>.
\<close>

theorem catalog_numeric_order:
  assumes "\<forall>(d, ds)\<in>set specs. digit_string ds"
  shows "sort_wav_files (map chunk_path specs)
           = Inr (map chunk_path (sort_key chunk_number specs))
       \<and> sorted (map chunk_number (sort_key chunk_number specs))
       \<and> mset (sort_key chunk_number specs) = mset specs"
  using sort_wav_files_chunks [OF assms] by simp

theorem catalog_numeric_order_witness:
  "sort_wav_files [''temp_audio_chunks/chunk_0.wav'', ''temp_audio_chunks/chunk_10.wav'',
                   ''temp_audio_chunks/chunk_2.wav'']
     = Inr [''temp_audio_chunks/chunk_0.wav'', ''temp_audio_chunks/chunk_2.wav'',
            ''temp_audio_chunks/chunk_10.wav'']"
  using catalog_numeric_order [of "[(''temp_audio_chunks'', ''0''), (''temp_audio_chunks'', ''10''),
      (''temp_audio_chunks'', ''2'')]"]
  by (simp add: chunk_path_def chunk_number_def digit_string_def is_digit_def decimal_def
      digit_val_def)

text \<open>
  C5. The size bound of the text units. Read as stated (a unit is longer than the limit
  only if it comes from a sentence fragment that alone exceeds the limit), the claim
  fails: the text \<open>abc\<close> with the limit 3 is one fragment of three characters, which
  does not exceed the limit, and \<open>split_text_into_chunks\<close> returns one unit of four
  characters, the fragment with the full stop U+3002 appended.
\<close>

theorem fragment_at_the_limit:
  "split_on is_terminator [97, 98, 99] = [[97, 98, 99]]
   \<and> int (length (strip [97, 98, 99])) \<le> 3
   \<and> split_text_into_chunks [97, 98, 99] 3 = [[97, 98, 99, 12290]]
   \<and> 3 < int (length [97 :: nat, 98, 99, 12290])"
  by (simp add: chunks_abc strip_abc is_terminator_def)

text \<open>
  C5, as the code has it. The fragment counts with the terminator the chunker appends to
  it. For every text and every limit, each unit that \<open>split_text_into_chunks\<close> or
  \<open>split_text_smart\<close> returns has at most \<open>max_chunk_size\<close> characters, or it is one
  single sentence fragment that has, stripped, at least \<open>max_chunk_size\<close> characters (so
  that with its terminator it exceeds the limit by itself), whole and unshortened, with
  the terminator appended to it. And every such fragment is returned in this form as a
  unit of its own: none is dropped or cut. (For \<open>split_text_smart\<close> the fragments are
  those of the paragraphs longer than the limit; a shorter paragraph is never cut.)
\<close>

theorem chunk_size_bound:
  "(\<forall>u\<in>set (split_text_into_chunks text max_chunk_size).
      int (length u) \<le> max_chunk_size
      \<or> (\<exists>s\<in>sentence_fragments text.
            strip s \<noteq> [] \<and> max_chunk_size \<le> int (length (strip s))
            \<and> u = strip s @ [full_stop]))
   \<and> (\<forall>s\<in>sentence_fragments text.
        strip s \<noteq> [] \<and> max_chunk_size \<le> int (length (strip s)) \<longrightarrow>
        strip s @ [full_stop] \<in> set (split_text_into_chunks text max_chunk_size))
   \<and> (\<forall>u\<in>set (split_text_smart text max_chunk_size).
      int (length u) \<le> max_chunk_size
      \<or> (\<exists>s\<in>long_paragraph_fragments text max_chunk_size.
            strip s \<noteq> [] \<and> max_chunk_size \<le> int (length (strip s))
            \<and> u = strip s @ [full_stop]))
   \<and> (\<forall>s\<in>long_paragraph_fragments text max_chunk_size.
        strip s \<noteq> [] \<and> max_chunk_size \<le> int (length (strip s)) \<longrightarrow>
        strip s @ [full_stop] \<in> set (split_text_smart text max_chunk_size))"
proof (intro conjI ballI impI)
  fix u assume u: "u \<in> set (split_text_into_chunks text max_chunk_size)"
  show "int (length u) \<le> max_chunk_size
      \<or> (\<exists>s\<in>sentence_fragments text.
            strip s \<noteq> [] \<and> max_chunk_size \<le> int (length (strip s))
            \<and> u = strip s @ [full_stop])"
  proof (cases "int (length u) \<le> max_chunk_size")
    case True
    then show ?thesis by simp
  next
    case False
    with u units_short_or_whole [of "text" max_chunk_size]
    obtain s where s: "s \<in> sentence_fragments text" "strip s \<noteq> []" "u = strip s @ [full_stop]"
      by blast
    with False have "max_chunk_size \<le> int (length (strip s))" by simp
    with s show ?thesis by blast
  qed
next
  fix s assume "s \<in> sentence_fragments text"
    and "strip s \<noteq> [] \<and> max_chunk_size \<le> int (length (strip s))"
  then show "strip s @ [full_stop] \<in> set (split_text_into_chunks text max_chunk_size)"
    by (intro oversized_sentences_emitted) simp_all
next
  fix u assume u: "u \<in> set (split_text_smart text max_chunk_size)"
  show "int (length u) \<le> max_chunk_size
      \<or> (\<exists>s\<in>long_paragraph_fragments text max_chunk_size.
            strip s \<noteq> [] \<and> max_chunk_size \<le> int (length (strip s))
            \<and> u = strip s @ [full_stop])"
  proof (cases "int (length u) \<le> max_chunk_size")
    case True
    then show ?thesis by simp
  next
    case False
    with u units_short_or_whole [of "text" max_chunk_size]
    obtain s where s: "s \<in> long_paragraph_fragments text max_chunk_size" "strip s \<noteq> []"
        "u = strip s @ [full_stop]"
      by blast
    with False have "max_chunk_size \<le> int (length (strip s))" by simp
    with s show ?thesis by blast
  qed
next
  fix s assume "s \<in> long_paragraph_fragments text max_chunk_size"
    and "strip s \<noteq> [] \<and> max_chunk_size \<le> int (length (strip s))"
  then show "strip s @ [full_stop] \<in> set (split_text_smart text max_chunk_size)"
    by (intro oversized_smart_sentences_emitted) simp_all
qed

theorem chunk_size_bound_witness:
  "[97, 98, 99] \<in> sentence_fragments [97, 98, 99]
   \<and> strip [97, 98, 99] \<noteq> []
   \<and> 3 \<le> int (length (strip [97, 98, 99]))
   \<and> strip [97, 98, 99] @ [full_stop] \<in> set (split_text_into_chunks [97, 98, 99] 3)"
  using chunk_size_bound [of "[97, 98, 99]" 3]
  by (simp add: sentence_fragments_def is_terminator_def strip_abc)

text \<open>
  C6. No content is lost. For every text and every limit, the units of either chunker,
  joined in order, have the content of the text: apart from sentence terminators (those
  of the text and those the chunker appends) and whitespace, they consist of the same
  characters in the same order, none dropped, repeated or moved. More closely, newlines
  apart, the joined units of \<open>split_text_into_chunks\<close> are the sentence fragments of
  the text in order, each stripped at its ends and followed by the appended terminator
  (blank fragments give nothing); those of \<open>split_text_smart\<close> are the stripped
  paragraphs in order, a paragraph longer than the limit replaced by its fragments in
  that form.
\<close>

theorem chunkers_keep_content:
  "content_of (concat (split_text_into_chunks text max_chunk_size)) = content_of text
   \<and> content_of (concat (split_text_smart text max_chunk_size)) = content_of text
   \<and> without_newlines (concat (split_text_into_chunks text max_chunk_size))
       = without_newlines (concat (map terminated (split_on is_terminator text)))
   \<and> without_newlines (concat (split_text_smart text max_chunk_size))
       = without_newlines (concat (map (paragraph_pieces max_chunk_size) (split_nlnl text)))"
proof (intro conjI)
  show "content_of (concat (split_text_into_chunks text max_chunk_size)) = content_of text"
    using kept_foldl [of "add_sentence max_chunk_size" "([], [])" "split_on is_terminator text",
        OF kept_add_sentence]
    by (simp add: split_text_into_chunks_def Let_def content_of_flush content_of_sentences)
      (simp add: kept_def)
  show "content_of (concat (split_text_smart text max_chunk_size)) = content_of text"
    using kept_foldl [of "smart_paragraph max_chunk_size" "([], [])" "split_nlnl text",
        OF kept_smart_paragraph]
    by (simp add: split_text_smart_def Let_def content_of_flush content_of_paragraphs)
      (simp add: kept_def)
  show "without_newlines (concat (split_text_into_chunks text max_chunk_size))
       = without_newlines (concat (map terminated (split_on is_terminator text)))"
    by (rule chunkers_join_pieces)
  show "without_newlines (concat (split_text_smart text max_chunk_size))
       = without_newlines (concat (map (paragraph_pieces max_chunk_size) (split_nlnl text)))"
    by (rule chunkers_join_pieces)
qed
text \<open>
  C7. When the folder exists and no file matches \<open>chunk_*.wav\<close>, each merge tool ends
  with its "no chunk files" failure, and the output file is left as it was: it is not
  opened, so a file that did not exist is not created.
\<close>

theorem no_chunks_no_output:
  assumes "folder_exists e" and "glob_chunks e = []"
  shows "merge_audio_fixed e = (NoFiles, output_file e)
       \<and> merge_wav_files e = (Returned False, [], NotOpened)
       \<and> merge_audio_fast e = (NoFiles, NotOpened)"
  using assms by (simp add: merge_audio_fixed_def merge_wav_files_def merge_audio_fast_def)

theorem no_chunks_no_output_witness:
  "merge_audio_fixed \<lparr>folder_exists = True, glob_chunks = [], wave_open = (\<lambda>p. Inl OSError),
                       output_file = None\<rparr> = (NoFiles, None)"
  using no_chunks_no_output [of "\<lparr>folder_exists = True, glob_chunks = [],
                       wave_open = (\<lambda>p. Inl OSError), output_file = None\<rparr>"]
  by simp

text \<open>
  C8. Silence between chunks. Read as stated (no merge inserts silence between
  consecutive chunks unless the caller asks for it), the claim fails on the merge inside
  the converters: on two chunk files, the pydub loop of \<open>txt_to_wav_large\<close> puts 300 ms
  of silence between the first chunk and the second (and after the second), and no
  parameter of the function switches that on or off.
\<close>

theorem converters_insert_silence:
  "txt_to_wav_large_combined two_chunks
       [''temp_audio_chunks/chunk_0.wav'', ''temp_audio_chunks/chunk_1.wav'']
     = Inr [Audio (mono16 1 [1, 2]), Silence 300, Audio (mono16 2 [3, 4, 5, 6]), Silence 300]
   \<and> txt_to_wav_large_combined two_chunks
       [''temp_audio_chunks/chunk_0.wav'', ''temp_audio_chunks/chunk_1.wav'']
     \<noteq> Inr [Audio (mono16 1 [1, 2]), Audio (mono16 2 [3, 4, 5, 6])]"
  by (simp add: txt_to_wav_large_combined_def two_chunks_def)

text \<open>
  C8, as the code has it. A completed run of \<open>merge_audio_fixed\<close> leaves a 44-byte header
  followed by the frames of the chunks that pass, in catalog order, and nothing else;
  the function takes no argument, so there is no gap to ask for. The pydub loop inside \<open>txt_to_wav_large\<close> and
  \<open>txt_to_mp3_large_file\<close> appends a fixed silence (300 ms and 500 ms) after every
  chunk, the last one included, whenever all chunk files can be read.
\<close>

theorem silence_by_tool:
  assumes "folder_exists e" and "glob_chunks e \<noteq> []"
    and "sort_wav_files (glob_chunks e) = Inr fs"
    and "wave_open e (hd fs) = Inr ref"
    and "fits (getparams ref) (length (merged_data (wave_open e) (getparams ref) fs))"
    and "\<forall>f\<in>set chunk_files. from_wav f = Inr (wav f)"
  shows "(\<exists>header. length header = 44
            \<and> snd (merge_audio_fixed e)
                = Some (header @ concat (map (frames_of (wave_open e))
                                   (filter (passes (wave_open e) (getparams ref)) fs))))
    \<and> txt_to_wav_large_combined from_wav chunk_files
         = Inr (concat (map (\<lambda>f. [Audio (wav f), Silence 300]) chunk_files))
    \<and> txt_to_mp3_large_file_combined from_wav chunk_files
         = Inr (concat (map (\<lambda>f. [Audio (wav f), Silence 500]) chunk_files))"
  using merge_audio_fixed_completes [OF assms(1-5)] pydub_combine_all [OF assms(6)]
    length_riff_header
  by (auto simp: txt_to_wav_large_combined_def txt_to_mp3_large_file_combined_def merged_data_def)

theorem silence_by_tool_witness:
  "txt_to_mp3_large_file_combined two_chunks
       [''temp_audio_chunks/chunk_0.wav'', ''temp_audio_chunks/chunk_1.wav'']
     = Inr [Audio (mono16 1 [1, 2]), Silence 500, Audio (mono16 2 [3, 4, 5, 6]), Silence 500]"
proof -
  have "\<forall>f\<in>set [''temp_audio_chunks/chunk_0.wav'', ''temp_audio_chunks/chunk_1.wav''].
          two_chunks f = Inr (if f = ''temp_audio_chunks/chunk_0.wav'' then mono16 1 [1, 2]
                              else mono16 2 [3, 4, 5, 6])"
    by (simp add: two_chunks_def)
  from silence_by_tool [OF two_chunks_run this] show ?thesis by simp
qed

text \<open>
  C9. The output path does not influence the output. \<open>merge_audio_fixed\<close> takes no
  argument: it writes the file of a fixed name in the working directory and reads the
  chunk folder of that directory, so two output paths are two places, each with what a
  run finds there. Let two runs find chunk files that in catalog order have the same
  contents; the names of the files, the order in which the glob lists them and what a
  former run left at the destination may all differ. If the first chunk opens, both runs
  write an output file, the two files hold the same bytes, and the runs end alike (the
  same frame total on completion, the same exception otherwise, also when a header value
  does not fit its field). If the first chunk does not open, both runs end with its
  exception and neither touches its destination.
\<close>

theorem same_chunks_same_bytes:
  assumes "folder_exists e1" and "folder_exists e2"
    and "glob_chunks e1 \<noteq> []" and "glob_chunks e2 \<noteq> []"
    and "sort_wav_files (glob_chunks e1) = Inr fs1"
    and "sort_wav_files (glob_chunks e2) = Inr fs2"
    and "map (wave_open e1) fs1 = map (wave_open e2) fs2"
  shows "(\<forall>ref. wave_open e1 (hd fs1) = Inr ref \<longrightarrow>
            (\<exists>bytes. snd (merge_audio_fixed e1) = Some bytes
                    \<and> snd (merge_audio_fixed e2) = Some bytes)
          \<and> map_outcome fst (fst (merge_audio_fixed e1))
              = map_outcome fst (fst (merge_audio_fixed e2)))
       \<and> (\<forall>x. wave_open e1 (hd fs1) = Inl x \<longrightarrow>
            merge_audio_fixed e1 = (MergeFailed x, output_file e1)
          \<and> merge_audio_fixed e2 = (MergeFailed x, output_file e2))"
proof -
  have n1: "fs1 \<noteq> []" using sort_wav_files_length [OF assms(5)] assms(3) by auto
  have n2: "fs2 \<noteq> []" using sort_wav_files_length [OF assms(6)] assms(4) by auto
  have h: "wave_open e1 (hd fs1) = wave_open e2 (hd fs2)"
    using assms(7) n1 n2 by (cases fs1; cases fs2) simp_all
  show ?thesis
  proof (intro conjI allI impI)
    fix ref assume r: "wave_open e1 (hd fs1) = Inr ref"
    note w = write_output_by_content [OF assms(7), of "getparams ref"]
    have m1: "merge_audio_fixed e1 = write_output (wave_open e1) (getparams ref) fs1"
      using assms(1,3,5) r by (simp add: merge_audio_fixed_def)
    have m2: "merge_audio_fixed e2 = write_output (wave_open e2) (getparams ref) fs2"
      using assms(2,4,6) r h by (simp add: merge_audio_fixed_def)
    from w obtain bytes where b: "snd (write_output (wave_open e1) (getparams ref) fs1) = Some bytes"
      by blast
    with w have "snd (write_output (wave_open e2) (getparams ref) fs2) = Some bytes"
      by metis
    with b show "\<exists>bytes. snd (merge_audio_fixed e1) = Some bytes
                 \<and> snd (merge_audio_fixed e2) = Some bytes"
      by (simp only: m1 m2) blast
    show "map_outcome fst (fst (merge_audio_fixed e1))
              = map_outcome fst (fst (merge_audio_fixed e2))"
      using w by (simp add: m1 m2)
  next
    fix x assume x: "wave_open e1 (hd fs1) = Inl x"
    show "merge_audio_fixed e1 = (MergeFailed x, output_file e1)"
      using assms(1,3,5) x by (simp add: merge_audio_fixed_def)
    show "merge_audio_fixed e2 = (MergeFailed x, output_file e2)"
      using assms(2,4,6) x h by (simp add: merge_audio_fixed_def)
  qed
qed

theorem same_chunks_same_bytes_witness:
  "\<exists>bytes. snd (merge_audio_fixed \<lparr>folder_exists = True,
       glob_chunks = [''temp_audio_chunks/chunk_0.wav'', ''temp_audio_chunks/chunk_1.wav''],
       wave_open = two_chunks, output_file = None\<rparr>) = Some bytes
   \<and> snd (merge_audio_fixed \<lparr>folder_exists = True,
       glob_chunks = [''temp_audio_chunks/chunk_7.wav'', ''temp_audio_chunks/chunk_5.wav''],
       wave_open = renumbered, output_file = Some [0, 0, 0]\<rparr>) = Some bytes"
  using same_chunks_same_bytes [of
      "\<lparr>folder_exists = True,
       glob_chunks = [''temp_audio_chunks/chunk_0.wav'', ''temp_audio_chunks/chunk_1.wav''],
       wave_open = two_chunks, output_file = None\<rparr>"
      "\<lparr>folder_exists = True,
       glob_chunks = [''temp_audio_chunks/chunk_7.wav'', ''temp_audio_chunks/chunk_5.wav''],
       wave_open = renumbered, output_file = Some [0, 0, 0]\<rparr>"
      "[''temp_audio_chunks/chunk_0.wav'', ''temp_audio_chunks/chunk_1.wav'']"
      "[''temp_audio_chunks/chunk_5.wav'', ''temp_audio_chunks/chunk_7.wav'']"]
    sort_two sort_renumbered
  by (simp add: two_chunks_def renumbered_def)

text \<open>
  C10. Cutting the ordered chunk list into batches changes nothing of the result: for
  every chunk list, every start state and every positive batch size, the batch loop of
  \<open>merge_audio_fixed\<close> ends in the state (output bytes and position, frame total, lines
  of left-out chunks) that processing the files one by one in list order gives, and the
  same holds for the loop of \<open>merge_audio_fast\<close>.
\<close>

theorem batching_is_transparent:
  assumes "0 < batch_size"
  shows "for_batches batch_size (merge_file wopen params) wav_files st
           = foldl (merge_file wopen params) st wav_files
       \<and> for_batches batch_size (copy_unchecked wopen) wav_files ws
           = foldl (copy_unchecked wopen) ws wav_files"
  using assms by (simp add: for_batches_foldl)

theorem batching_is_transparent_witness:
  "(0::nat) < 2
   \<and> for_batches 2 (merge_file (\<lambda>p. Inl OSError) \<lparr>nchannels = 1, sampwidth = 2, framerate = 22050, nframes = 1\<rparr>)
         [''a/chunk_0.wav'', ''a/chunk_1.wav'', ''a/chunk_2.wav'']
         \<lparr>out = open_wb, total_frames = 0, skipped = []\<rparr>
       = \<lparr>out = open_wb, total_frames = 0,
          skipped = [Corrupt ''chunk_0.wav'' OSError, Corrupt ''chunk_1.wav'' OSError,
                     Corrupt ''chunk_2.wav'' OSError]\<rparr>"
  using batching_is_transparent [of 2 "\<lambda>p. Inl OSError"
      "\<lparr>nchannels = 1, sampwidth = 2, framerate = 22050, nframes = 1\<rparr>"
      "[''a/chunk_0.wav'', ''a/chunk_1.wav'', ''a/chunk_2.wav'']"
      "\<lparr>out = open_wb, total_frames = 0, skipped = []\<rparr>"]
  by (simp add: merge_file_def basename_def)

end
